theory Spec2Isabelle
  imports Main "HOL-Library.Word"
begin

section \<open>JavaScript strings\<close>

text \<open>
  A JavaScript string is a sequence of UTF-16 code units; \<open>length\<close>, \<open>slice\<close>,
  \<open>substring\<close>, \<open>endsWith\<close>, \<open>includes\<close> and \<open>replace\<close> all count and compare
  code units. Bytes of a \<open>Uint8Array\<close> are 8-bit words.
\<close>

type_synonym code_unit = "16 word"
type_synonym jsstring = "code_unit list"
type_synonym byte = "8 word"

text \<open>An ASCII literal of the source, as a JavaScript string.\<close>

definition js :: "string \<Rightarrow> jsstring" where
  "js s = map of_char s"

text \<open>
  \<open>String.prototype.trim\<close> removes the code units that ECMAScript calls WhiteSpace or
  LineTerminator from both ends.
\<close>

definition isWhiteSpace :: "code_unit \<Rightarrow> bool" where
  "isWhiteSpace c =
     (c = 0x09 \<or> c = 0x0A \<or> c = 0x0B \<or> c = 0x0C \<or> c = 0x0D \<or> c = 0x20 \<or> c = 0xA0 \<or>
      c = 0x1680 \<or> (0x2000 \<le> c \<and> c \<le> 0x200A) \<or> c = 0x2028 \<or> c = 0x2029 \<or>
      c = 0x202F \<or> c = 0x205F \<or> c = 0x3000 \<or> c = 0xFEFF)"

definition trim :: "jsstring \<Rightarrow> jsstring" where
  "trim s = rev (dropWhile isWhiteSpace (rev (dropWhile isWhiteSpace s)))"

definition endsWith :: "jsstring \<Rightarrow> jsstring \<Rightarrow> bool" where
  "endsWith s t = (length t \<le> length s \<and> drop (length s - length t) s = t)"

fun startsWith :: "jsstring \<Rightarrow> jsstring \<Rightarrow> bool" where
  "startsWith s [] = True"
| "startsWith [] (p # ps) = False"
| "startsWith (c # cs) (p # ps) = (c = p \<and> startsWith cs ps)"

text \<open>\<open>s.indexOf(t)\<close>: the least position at which \<open>t\<close> occurs in \<open>s\<close>, if any.\<close>

fun indexOf :: "jsstring \<Rightarrow> jsstring \<Rightarrow> nat option" where
  "indexOf [] t = (if t = [] then Some 0 else None)"
| "indexOf (c # cs) t =
     (if startsWith (c # cs) t then Some 0 else map_option Suc (indexOf cs t))"

definition includesStr :: "jsstring \<Rightarrow> jsstring \<Rightarrow> bool" where
  "includesStr s t = (indexOf s t \<noteq> None)"

text \<open>\<open>s.slice(0, -1)\<close>: all but the last code unit.\<close>

definition slice_0_m1 :: "jsstring \<Rightarrow> jsstring" where
  "slice_0_m1 s = take (length s - 1) s"

text \<open>
  \<open>s.substring(a, b)\<close> clamps both indices to the length of the string and swaps them
  when the first is the larger.
\<close>

definition substring :: "jsstring \<Rightarrow> nat \<Rightarrow> nat \<Rightarrow> jsstring" where
  "substring s a b =
     (let lo = min (min a b) (length s); hi = min (max a b) (length s)
      in take (hi - lo) (drop lo s))"

text \<open>
  A JavaScript number is a double. The numbers of this development are the safe integers,
  those of magnitude below \<open>2^53\<close>: each of them is a double, and a template literal prints
  it as its exact decimal text, with a minus sign when it is negative. Other numbers
  (fractions, integers that a double can only hold rounded, infinities) are outside the
  type, so that nothing is said of how they print.
\<close>

typedef safeInteger = "{n :: int. \<bar>n\<bar> < 2 ^ 53}"
  by (rule exI [of _ 0]) simp

text \<open>The safe integer of an integer; it is applied to integers of magnitude below \<open>2^53\<close> only.\<close>

definition safe :: "int \<Rightarrow> safeInteger" where
  "safe n = Abs_safeInteger n"

text \<open>The decimal digits of a natural number, most significant first.\<close>

fun decimalDigits :: "nat \<Rightarrow> jsstring" where
  "decimalDigits n =
     (if n < 10 then [of_nat (48 + n)]
      else decimalDigits (n div 10) @ [of_nat (48 + n mod 10)])"

declare decimalDigits.simps [simp del]

definition numberToString :: "safeInteger \<Rightarrow> jsstring" where
  "numberToString x =
     (let n = Rep_safeInteger x
      in if n < 0 then 0x2D # decimalDigits (nat (- n)) else decimalDigits (nat n))"

section \<open>Request encoding\<close>

subsection \<open>Sanitising and wrapping the statement\<close>

text \<open>
  The first two steps of \<open>prepareSqlParameters\<close>, under the names of its local variables:
  \<^verbatim>\<open>
  let cleanSql = sql.trim();
  if (cleanSql.endsWith(';')) { cleanSql = cleanSql.slice(0, -1); }
  const wrappedSql = `SELECT * FROM (${cleanSql}) WHERE rownum <= ${rowLimit}`;
  \<close>
\<close>

definition cleanSql :: "jsstring \<Rightarrow> jsstring" where
  "cleanSql sql =
     (let cleanSql = trim sql
      in if endsWith cleanSql (js '';'') then slice_0_m1 cleanSql else cleanSql)"

definition wrappedSql :: "jsstring \<Rightarrow> safeInteger \<Rightarrow> jsstring" where
  "wrappedSql sql rowLimit =
     js ''SELECT * FROM ('' @ cleanSql sql @ js '') WHERE rownum <= '' @ numberToString rowLimit"

subsection \<open>UTF-8 and Base64\<close>

text \<open>
  \<open>new TextEncoder().encode(str)\<close> first reads the code units as scalar values, a lead
  surrogate followed by a trail surrogate making one supplementary code point and any
  other surrogate becoming U+FFFD, and then writes each scalar value in UTF-8.
\<close>

definition isLeadSurrogate :: "code_unit \<Rightarrow> bool" where
  "isLeadSurrogate c = (0xD800 \<le> c \<and> c \<le> 0xDBFF)"

definition isTrailSurrogate :: "code_unit \<Rightarrow> bool" where
  "isTrailSurrogate c = (0xDC00 \<le> c \<and> c \<le> 0xDFFF)"

fun scalarValues :: "jsstring \<Rightarrow> nat list" where
  "scalarValues [] = []"
| "scalarValues [c] =
     (if isLeadSurrogate c \<or> isTrailSurrogate c then [0xFFFD] else [unat c])"
| "scalarValues (c # d # cs) =
     (if isLeadSurrogate c \<and> isTrailSurrogate d
      then (0x10000 + (unat c - 0xD800) * 0x400 + (unat d - 0xDC00)) # scalarValues cs
      else if isLeadSurrogate c \<or> isTrailSurrogate c then 0xFFFD # scalarValues (d # cs)
      else unat c # scalarValues (d # cs))"

definition utf8Bytes :: "nat \<Rightarrow> nat list" where
  "utf8Bytes cp =
     (if cp < 0x80 then [cp]
      else if cp < 0x800 then [0xC0 + cp div 0x40, 0x80 + cp mod 0x40]
      else if cp < 0x10000
        then [0xE0 + cp div 0x1000, 0x80 + cp div 0x40 mod 0x40, 0x80 + cp mod 0x40]
      else [0xF0 + cp div 0x40000, 0x80 + cp div 0x1000 mod 0x40,
            0x80 + cp div 0x40 mod 0x40, 0x80 + cp mod 0x40])"

definition textEncode :: "jsstring \<Rightarrow> byte list" where
  "textEncode str = map of_nat (concat (map utf8Bytes (scalarValues str)))"

text \<open>
  \<open>btoa\<close> reads a string of code units below 256, three at a time, and writes four
  characters of the standard alphabet, padding the last group with \<open>=\<close>. It raises for
  a code unit above 255; \<open>encodeBase64\<close> builds its argument from the bytes of a
  \<open>Uint8Array\<close>, one code unit per byte, so \<open>btoa\<close> is modelled on the byte list.
\<close>

definition b64char :: "nat \<Rightarrow> code_unit" where
  "b64char n =
     (if n < 26 then of_nat (0x41 + n)
      else if n < 52 then of_nat (0x61 + (n - 26))
      else if n < 62 then of_nat (0x30 + (n - 52))
      else if n = 62 then 0x2B
      else 0x2F)"

fun sextets :: "nat list \<Rightarrow> jsstring" where
  "sextets (a # b # c # rest) =
     b64char (a div 4) # b64char (a mod 4 * 16 + b div 16) #
     b64char (b mod 16 * 4 + c div 64) # b64char (c mod 64) # sextets rest"
| "sextets [a, b] =
     [b64char (a div 4), b64char (a mod 4 * 16 + b div 16), b64char (b mod 16 * 4), 0x3D]"
| "sextets [a] = [b64char (a div 4), b64char (a mod 4 * 16), 0x3D, 0x3D]"
| "sextets [] = []"

definition btoa :: "byte list \<Rightarrow> jsstring" where
  "btoa binString = sextets (map unat binString)"

definition encodeBase64 :: "jsstring \<Rightarrow> jsstring" where
  "encodeBase64 str = btoa (textEncode str)"

subsection \<open>Chunking into the parameters q1 to q9\<close>

definition CHUNK_SIZE :: nat where
  "CHUNK_SIZE = 32767"

text \<open>The template literal that the loop appends for one chunk.\<close>

definition paramItem :: "jsstring \<Rightarrow> jsstring \<Rightarrow> jsstring" where
  "paramItem paramName chunk =
     0x0A # js ''        <v2:item>'' @
     0x0A # js ''            <v2:name>'' @ paramName @ js ''</v2:name>'' @
     0x0A # js ''            <v2:values>'' @
     0x0A # js ''                <v2:item>'' @ chunk @ js ''</v2:item>'' @
     0x0A # js ''            </v2:values>'' @
     0x0A # js ''        </v2:item>''"

text \<open>
  The loop of \<open>prepareSqlParameters\<close>, with its variables \<open>i\<close> and \<open>paramXml\<close> as
  arguments:
  \<^verbatim>\<open>
  for (let i = 0; i < totalLen; i += CHUNK_SIZE) {
    const chunkIndex = Math.floor(i / CHUNK_SIZE);
    if (chunkIndex >= 9) break;
    const chunk = base64Sql.substring(i, i + CHUNK_SIZE);
    const paramName = `q${chunkIndex + 1}`;
    paramXml += `...`;
  }
  \<close>
\<close>

function chunkLoop :: "jsstring \<Rightarrow> nat \<Rightarrow> jsstring \<Rightarrow> jsstring" where
  "chunkLoop base64Sql i paramXml =
     (if i < length base64Sql then
        (let chunkIndex = i div CHUNK_SIZE in
         if chunkIndex \<ge> 9 then paramXml
         else
           (let chunk = substring base64Sql i (i + CHUNK_SIZE);
                paramName = js ''q'' @ numberToString (safe (int (chunkIndex + 1)))
            in chunkLoop base64Sql (i + CHUNK_SIZE) (paramXml @ paramItem paramName chunk)))
      else paramXml)"
  by pat_completeness auto
termination
  by (relation "measure (\<lambda>(base64Sql, i, paramXml). length base64Sql - i)")
     (auto simp: CHUNK_SIZE_def)

declare chunkLoop.simps [simp del]

definition prepareSqlParameters :: "jsstring \<Rightarrow> safeInteger \<Rightarrow> jsstring" where
  "prepareSqlParameters sql rowLimit =
     (let base64Sql = encodeBase64 (wrappedSql sql rowLimit)
      in chunkLoop base64Sql 0 [])"

text \<open>
  The chunking as the specification words it, to be compared with the loop: the number of
  chunks is the ceiling of \<open>N / 32767\<close> capped at 9, the chunk of index \<open>i\<close> is the slice
  of at most 32767 characters at offset \<open>i * 32767\<close>, its parameter is named \<open>q\<close> followed
  by the digit of \<open>i + 1\<close>, and its item is the text of the source with the name and the
  chunk in their places.
\<close>

definition spec_chunkCount :: "nat \<Rightarrow> nat" where
  "spec_chunkCount N = min ((N + 32766) div 32767) 9"

definition spec_chunkAt :: "jsstring \<Rightarrow> nat \<Rightarrow> jsstring" where
  "spec_chunkAt b i = take 32767 (drop (i * 32767) b)"

definition spec_paramName :: "nat \<Rightarrow> jsstring" where
  "spec_paramName i = [0x71, of_nat (0x31 + i)]"

definition spec_item :: "jsstring \<Rightarrow> nat \<Rightarrow> jsstring" where
  "spec_item b i =
     0x0A # js ''        <v2:item>'' @
     0x0A # js ''            <v2:name>'' @ spec_paramName i @ js ''</v2:name>'' @
     0x0A # js ''            <v2:values>'' @
     0x0A # js ''                <v2:item>'' @ spec_chunkAt b i @ js ''</v2:item>'' @
     0x0A # js ''            </v2:values>'' @
     0x0A # js ''        </v2:item>''"

subsection \<open>Filling the SOAP template\<close>

record ConnectionConfig =
  id_c :: jsstring
  name_c :: jsstring
  url :: jsstring
  username :: jsstring
  password :: jsstring
  soapTemplate :: jsstring
  corsProxy :: "jsstring option"

text \<open>
  \<open>template.replace(pattern, replacement)\<close> with a string pattern replaces the first
  occurrence of the pattern only. The replacement is not inserted as it is: ECMAScript's
  GetSubstitution reads \<open>$$\<close> as a dollar sign, \<open>$&\<close> as the matched text,
  \<open>$`\<close> as the text before the match and \<open>$'\<close> as the text after it. A string pattern has
  no capture groups, so \<open>$\<close> before a digit or before \<open><\<close> stays as it is.
\<close>

fun getSubstitution :: "jsstring \<Rightarrow> jsstring \<Rightarrow> jsstring \<Rightarrow> jsstring \<Rightarrow> jsstring" where
  "getSubstitution matched before after [] = []"
| "getSubstitution matched before after [c] = [c]"
| "getSubstitution matched before after (c # d # rest) =
     (if c = 0x24 \<and> d = 0x24 then 0x24 # getSubstitution matched before after rest
      else if c = 0x24 \<and> d = 0x26 then matched @ getSubstitution matched before after rest
      else if c = 0x24 \<and> d = 0x60 then before @ getSubstitution matched before after rest
      else if c = 0x24 \<and> d = 0x27 then after @ getSubstitution matched before after rest
      else c # getSubstitution matched before after (d # rest))"

definition jsReplace :: "jsstring \<Rightarrow> jsstring \<Rightarrow> jsstring \<Rightarrow> jsstring" where
  "jsReplace s searchString replaceValue =
     (case indexOf s searchString of
        None \<Rightarrow> s
      | Some pos \<Rightarrow>
          (let preceding = take pos s;
               following = drop (pos + length searchString) s
           in preceding @ getSubstitution searchString preceding following replaceValue
              @ following))"

text \<open>The hard-coded envelope used when the connection has no usable template.\<close>

definition defaultEnvelope :: "jsstring \<Rightarrow> jsstring \<Rightarrow> jsstring \<Rightarrow> jsstring" where
  \<open>defaultEnvelope parametersXml user pass =
     js ''<soapenv:Envelope xmlns:soapenv="http://schemas.xmlsoap.org/soap/envelope/" xmlns:v2="http://xmlns.oracle.com/oxp/service/v2">'' @
     0x0A # js ''        <soapenv:Header/>'' @
     0x0A # js ''        <soapenv:Body>'' @
     0x0A # js ''            <v2:runReport>'' @
     0x0A # js ''                <v2:reportRequest>'' @
     0x0A # js ''                    <v2:attributeFormat>xml</v2:attributeFormat>'' @
     0x0A # js ''                    <v2:byPassCache>True</v2:byPassCache>'' @
     0x0A # js ''                    <v2:flattenXML>True</v2:flattenXML>'' @
     0x0A # js ''                    <v2:reportAbsolutePath>/Custom/Human Capital Management/FusionSQLtoolTest1/FSTreport_2.xdo</v2:reportAbsolutePath>'' @
     0x0A # js ''                    <v2:parameterNameValues>'' @
     0x0A # js ''                       <v2:listOfParamNameValues>'' @
     0x0A # js ''                          '' @ parametersXml @
     0x0A # js ''                       </v2:listOfParamNameValues>'' @
     0x0A # js ''                    </v2:parameterNameValues>'' @
     0x0A # js ''                </v2:reportRequest>'' @
     0x0A # js ''                <v2:userID>'' @ user @ js ''</v2:userID>'' @
     0x0A # js ''                <v2:password>'' @ pass @ js ''</v2:password>'' @
     0x0A # js ''            </v2:runReport>'' @
     0x0A # js ''        </soapenv:Body>'' @
     0x0A # js ''      </soapenv:Envelope>''\<close>

text \<open>
  Step 2 of \<open>executeSoapQuery\<close>:
  \<^verbatim>\<open>
  if (config.soapTemplate && config.soapTemplate.includes('{{PARAMETERS}}')) {
      soapBody = config.soapTemplate
        .replace('{{USERNAME}}', config.username)
        .replace('{{PASSWORD}}', config.password)
        .replace('{{PARAMETERS}}', parametersXml);
  } else { soapBody = `...`; }
  \<close>
\<close>

definition soapBody :: "ConnectionConfig \<Rightarrow> jsstring \<Rightarrow> jsstring" where
  "soapBody config parametersXml =
     (if soapTemplate config \<noteq> [] \<and> includesStr (soapTemplate config) (js ''{{PARAMETERS}}'')
      then jsReplace
             (jsReplace
                (jsReplace (soapTemplate config) (js ''{{USERNAME}}'') (username config))
                (js ''{{PASSWORD}}'') (password config))
             (js ''{{PARAMETERS}}'') parametersXml
      else defaultEnvelope parametersXml (username config) (password config))"

text \<open>
  The first occurrence as the specification words it: the least position at which the token
  stands in the string.
\<close>

definition spec_firstOccurrence :: "jsstring \<Rightarrow> jsstring \<Rightarrow> nat option" where
  "spec_firstOccurrence s tok =
     List.find (\<lambda>i. take (length tok) (drop i s) = tok) [0..<Suc (length s)]"

subsection \<open>Target URL and proxy\<close>

definition REPORT_SERVICE_PATH :: jsstring where
  "REPORT_SERVICE_PATH = js ''/xmlpserver/services/v2/ReportService''"

text \<open>
  Steps 3 and 4 of \<open>executeSoapQuery\<close>, under the names of their variables:
  \<^verbatim>\<open>
  let targetUrl = config.url.trim();
  if (!targetUrl.includes("/xmlpserver")) {
      if (targetUrl.endsWith('/')) { targetUrl = targetUrl.slice(0, -1); }
      targetUrl = `${targetUrl}${REPORT_SERVICE_PATH}`;
  }
  let fetchUrl = targetUrl;
  if (config.corsProxy && config.corsProxy.trim().length > 0) {
      let proxy = config.corsProxy.trim();
      if (proxy === 'https://corsproxy.io') { proxy = 'https://corsproxy.io/?'; }
      if (!proxy.endsWith('?') && !proxy.endsWith('=') && !proxy.endsWith('/')) {
         proxy = `${proxy}/`;
      }
      fetchUrl = `${proxy}${targetUrl}`;
  }
  \<close>
\<close>

definition targetUrl :: "ConnectionConfig \<Rightarrow> jsstring" where
  "targetUrl config =
     (let targetUrl = trim (url config) in
      if \<not> includesStr targetUrl (js ''/xmlpserver'') then
        (let targetUrl = (if endsWith targetUrl (js ''/'') then slice_0_m1 targetUrl else targetUrl)
         in targetUrl @ REPORT_SERVICE_PATH)
      else targetUrl)"

definition proxyPrefix :: "jsstring \<Rightarrow> jsstring" where
  "proxyPrefix p =
     (let proxy = trim p;
          proxy = (if proxy = js ''https://corsproxy.io'' then js ''https://corsproxy.io/?''
                   else proxy)
      in if \<not> endsWith proxy (js ''?'') \<and> \<not> endsWith proxy (js ''='') \<and> \<not> endsWith proxy (js ''/'')
         then proxy @ js ''/'' else proxy)"

definition fetchUrl :: "ConnectionConfig \<Rightarrow> jsstring" where
  "fetchUrl config =
     (case corsProxy config of
        None \<Rightarrow> targetUrl config
      | Some p \<Rightarrow>
          if p \<noteq> [] \<and> length (trim p) > 0 then proxyPrefix p @ targetUrl config
          else targetUrl config)"




subsection \<open>The row limit typed by the user\<close>

text \<open>
  \<open>parseInt(string)\<close> without a radix: leading whitespace is skipped, one sign is read,
  \<open>0x\<close> or \<open>0X\<close> selects radix 16, and the longest run of digits of the radix is read.
  With no digit the result is \<open>NaN\<close>. Otherwise ECMAScript takes the exact integer that the
  digits denote, its \<open>mathInt\<close>, and returns the double for it: for a \<open>mathInt\<close> below \<open>2^53\<close>
  that is the safe integer itself with the sign, and for a larger one it is a number of
  magnitude \<open>2^53\<close> or more, rounded or infinite, of which only that much is kept here.
\<close>

datatype number = NaN | SafeInteger safeInteger | Unsafe

definition digitValue :: "code_unit \<Rightarrow> nat option" where
  "digitValue c =
     (if 0x30 \<le> c \<and> c \<le> 0x39 then Some (unat c - 0x30)
      else if 0x61 \<le> c \<and> c \<le> 0x7A then Some (unat c - 0x61 + 10)
      else if 0x41 \<le> c \<and> c \<le> 0x5A then Some (unat c - 0x41 + 10)
      else None)"

definition isRadixDigit :: "nat \<Rightarrow> code_unit \<Rightarrow> bool" where
  "isRadixDigit R c = (case digitValue c of None \<Rightarrow> False | Some v \<Rightarrow> v < R)"

text \<open>
  The \<open>mathInt\<close> of ECMAScript: the exact integer that a run of digits denotes in the
  radix. It is a mathematical integer, not a double; \<open>parseInt\<close> below turns it into a
  number.
\<close>

definition mathInt :: "nat \<Rightarrow> jsstring \<Rightarrow> nat" where
  "mathInt R Z =
     foldl (\<lambda>acc c. acc * R + (case digitValue c of None \<Rightarrow> 0 | Some v \<Rightarrow> v)) 0 Z"

definition parseInt :: "jsstring \<Rightarrow> number" where
  "parseInt string =
     (let S = dropWhile isWhiteSpace string;
          sign = (if S \<noteq> [] \<and> hd S = 0x2D then - 1 else 1);
          S = (if S \<noteq> [] \<and> (hd S = 0x2B \<or> hd S = 0x2D) then tl S else S);
          hex = (take 2 S = js ''0x'' \<or> take 2 S = js ''0X'');
          R = (if hex then 16 else 10);
          S = (if hex then drop 2 S else S);
          Z = takeWhile (isRadixDigit R) S
      in if Z = [] then NaN
         else if mathInt R Z < 2 ^ 53 then SafeInteger (safe (sign * int (mathInt R Z)))
         else Unsafe)"

text \<open>
  The handler of the row-limit input of \<open>App\<close>, the only place that sets \<open>rowLimit\<close>
  after its initial value 100:
  \<^verbatim>\<open>onChange={(e) => updateActiveTab({ rowLimit: parseInt(e.target.value) || 100 })}\<close>
  The operator \<open>||\<close> takes its right operand when the left one is \<open>NaN\<close> or zero, and its
  left operand otherwise.
\<close>

definition onChangeRowLimit :: "jsstring \<Rightarrow> number" where
  "onChangeRowLimit v =
     (case parseInt v of
        NaN \<Rightarrow> SafeInteger (safe 100)
      | SafeInteger n \<Rightarrow> if Rep_safeInteger n = 0 then SafeInteger (safe 100) else SafeInteger n
      | Unsafe \<Rightarrow> Unsafe)"

section \<open>Response decoding\<close>

subsection \<open>Base64 and UTF-8 decoding\<close>

text \<open>
  \<open>atob\<close> is the forgiving Base64 decoding of the web platform: ASCII whitespace is
  removed; when the length is then a multiple of four, one or two trailing \<open>=\<close> are
  removed; a length that leaves remainder one, or a character outside the alphabet, is a
  failure (\<open>atob\<close> raises, here \<open>None\<close>); every four characters give three bytes, and the
  spare bits of a last group of two or three characters are dropped.
\<close>

definition isAsciiWhitespace :: "code_unit \<Rightarrow> bool" where
  "isAsciiWhitespace c = (c = 0x09 \<or> c = 0x0A \<or> c = 0x0C \<or> c = 0x0D \<or> c = 0x20)"

definition b64value :: "code_unit \<Rightarrow> nat option" where
  "b64value c =
     (if 0x41 \<le> c \<and> c \<le> 0x5A then Some (unat c - 0x41)
      else if 0x61 \<le> c \<and> c \<le> 0x7A then Some (unat c - 0x61 + 26)
      else if 0x30 \<le> c \<and> c \<le> 0x39 then Some (unat c - 0x30 + 52)
      else if c = 0x2B then Some 62
      else if c = 0x2F then Some 63
      else None)"

fun octets :: "nat list \<Rightarrow> nat list" where
  "octets (a # b # c # d # rest) =
     (a * 4 + b div 16) # (b mod 16 * 16 + c div 4) # (c mod 4 * 64 + d) # octets rest"
| "octets [a, b, c] = [a * 4 + b div 16, b mod 16 * 16 + c div 4]"
| "octets [a, b] = [a * 4 + b div 16]"
| "octets [a] = []"
| "octets [] = []"

definition stripPadding :: "jsstring \<Rightarrow> jsstring" where
  "stripPadding d =
     (if length d mod 4 = 0 then
        (if endsWith d (js ''=='') then take (length d - 2) d
         else if endsWith d (js ''='') then take (length d - 1) d
         else d)
      else d)"

definition atob :: "jsstring \<Rightarrow> byte list option" where
  "atob str =
     (let d = stripPadding (filter (\<lambda>c. \<not> isAsciiWhitespace c) str) in
      if length d mod 4 = 1 then None
      else case those (map b64value d) of
             None \<Rightarrow> None
           | Some vs \<Rightarrow> Some (map of_nat (octets vs)))"

text \<open>
  \<open>new TextDecoder().decode(bytes)\<close> runs the UTF-8 decoder of the Encoding Standard,
  which never fails: a byte that cannot start or continue a sequence gives U+FFFD, and a
  byte that breaks a sequence is read again as the start of the next one. The state of the
  decoder is the code point being built, the number of continuation bytes seen and needed,
  and the bounds for the next continuation byte.
\<close>

record utf8state =
  codePoint :: nat
  bytesSeen :: nat
  bytesNeeded :: nat
  lowerBoundary :: nat
  upperBoundary :: nat

definition utf8init :: utf8state where
  "utf8init =
     \<lparr>codePoint = 0, bytesSeen = 0, bytesNeeded = 0, lowerBoundary = 0x80, upperBoundary = 0xBF\<rparr>"

definition startByte :: "nat \<Rightarrow> nat list \<times> utf8state" where
  "startByte b =
     (if b \<le> 0x7F then ([b], utf8init)
      else if 0xC2 \<le> b \<and> b \<le> 0xDF
        then ([], utf8init\<lparr>bytesNeeded := 1, codePoint := b mod 0x20\<rparr>)
      else if 0xE0 \<le> b \<and> b \<le> 0xEF
        then ([], utf8init\<lparr>lowerBoundary := (if b = 0xE0 then 0xA0 else 0x80),
                          upperBoundary := (if b = 0xED then 0x9F else 0xBF),
                          bytesNeeded := 2, codePoint := b mod 0x10\<rparr>)
      else if 0xF0 \<le> b \<and> b \<le> 0xF4
        then ([], utf8init\<lparr>lowerBoundary := (if b = 0xF0 then 0x90 else 0x80),
                          upperBoundary := (if b = 0xF4 then 0x8F else 0xBF),
                          bytesNeeded := 3, codePoint := b mod 0x08\<rparr>)
      else ([0xFFFD], utf8init))"

definition handleByte :: "utf8state \<Rightarrow> nat \<Rightarrow> nat list \<times> utf8state" where
  "handleByte st b =
     (if bytesNeeded st = 0 then startByte b
      else if b < lowerBoundary st \<or> upperBoundary st < b
        then (0xFFFD # fst (startByte b), snd (startByte b))
      else if Suc (bytesSeen st) \<noteq> bytesNeeded st
        then ([], st\<lparr>lowerBoundary := 0x80, upperBoundary := 0xBF,
                     codePoint := codePoint st * 0x40 + b mod 0x40,
                     bytesSeen := Suc (bytesSeen st)\<rparr>)
      else ([codePoint st * 0x40 + b mod 0x40], utf8init))"

fun utf8DecodeFrom :: "utf8state \<Rightarrow> nat list \<Rightarrow> nat list" where
  "utf8DecodeFrom st [] = (if bytesNeeded st \<noteq> 0 then [0xFFFD] else [])"
| "utf8DecodeFrom st (b # bs) =
     fst (handleByte st b) @ utf8DecodeFrom (snd (handleByte st b)) bs"

text \<open>
  A decoder made by \<open>new TextDecoder()\<close> has \<open>ignoreBOM\<close> false, which in the Encoding
  Standard means that a U+FEFF at the very start of the output is dropped.
\<close>

fun stripBOM :: "nat list \<Rightarrow> nat list" where
  "stripBOM [] = []"
| "stripBOM (cp # cps) = (if cp = 0xFEFF then cps else cp # cps)"

definition codeUnits :: "nat \<Rightarrow> jsstring" where
  "codeUnits cp =
     (if cp \<le> 0xFFFF then [of_nat cp]
      else [of_nat (0xD800 + (cp - 0x10000) div 0x400),
            of_nat (0xDC00 + (cp - 0x10000) mod 0x400)])"

definition textDecode :: "byte list \<Rightarrow> jsstring" where
  "textDecode bytes =
     concat (map codeUnits (stripBOM (utf8DecodeFrom utf8init (map unat bytes))))"

text \<open>
  \<^verbatim>\<open>
  try { const binString = atob(str);
        const bytes = Uint8Array.from(binString, (m) => m.codePointAt(0)!);
        return new TextDecoder().decode(bytes); }
  catch (e) { return ""; }
  \<close>
\<close>

definition decodeBase64 :: "jsstring \<Rightarrow> jsstring" where
  "decodeBase64 str =
     (case atob str of None \<Rightarrow> [] | Some bytes \<Rightarrow> textDecode bytes)"

subsection \<open>The parsed document\<close>

text \<open>
  \<open>DOMParser\<close> belongs to the browser, not to this program, so the parser is a parameter
  of the functions that call it and the theorems hold for every parser. What it returns is
  a document with a root element. A node is an element with a qualified name and child
  nodes, a text node (a CDATA section is one), or a comment or processing instruction;
  attributes are left out because the program never reads them.
\<close>

datatype node = Element jsstring "node list" | Text jsstring | Comment jsstring

datatype document = Document node

fun documentElement :: "document \<Rightarrow> node" where
  "documentElement (Document root) = root"

fun nodeType :: "node \<Rightarrow> nat" where
  "nodeType (Element n cs) = 1"
| "nodeType (Text t) = 3"
| "nodeType (Comment c) = 8"

fun nodeName :: "node \<Rightarrow> jsstring" where
  "nodeName (Element n cs) = n"
| "nodeName (Text t) = js ''#text''"
| "nodeName (Comment c) = js ''#comment''"

fun childNodes :: "node \<Rightarrow> node list" where
  "childNodes (Element n cs) = cs"
| "childNodes (Text t) = []"
| "childNodes (Comment c) = []"

text \<open>\<open>children\<close> holds the child nodes that are elements.\<close>

definition children :: "node \<Rightarrow> node list" where
  "children n = filter (\<lambda>c. nodeType c = 1) (childNodes n)"

text \<open>
  \<open>textContent\<close> of an element is the text of all text nodes below it, in document order;
  comments do not contribute.
\<close>

fun descendantText :: "node \<Rightarrow> jsstring" where
  "descendantText (Element n cs) = concat (map descendantText cs)"
| "descendantText (Text t) = t"
| "descendantText (Comment c) = []"

fun textContent :: "node \<Rightarrow> jsstring" where
  "textContent (Element n cs) = descendantText (Element n cs)"
| "textContent (Text t) = t"
| "textContent (Comment c) = c"

text \<open>
  \<open>document.getElementsByTagName(name)\<close> lists the elements of the document, the root
  included, whose qualified name is \<open>name\<close>, in document order.
\<close>

fun elementsOf :: "node \<Rightarrow> node list" where
  "elementsOf (Element n cs) = Element n cs # concat (map elementsOf cs)"
| "elementsOf (Text t) = []"
| "elementsOf (Comment c) = []"

definition getElementsByTagName :: "document \<Rightarrow> jsstring \<Rightarrow> node list" where
  "getElementsByTagName doc qualifiedName =
     filter (\<lambda>e. nodeName e = qualifiedName) (elementsOf (documentElement doc))"

subsection \<open>Flattening the report to a table\<close>

text \<open>
  A row is a JavaScript object made by the literal \<open>{}\<close>, kept here as the list of its own
  properties in the order of their creation. The assignment \<open>rowData[colName] = colValue\<close>
  creates the property or overwrites its value in place. The one exception is the key
  \<open>__proto__\<close>: on an object made by \<open>{}\<close> that assignment runs the setter inherited from
  \<open>Object.prototype\<close>, which ignores a value that is a string, so the object gets no
  property.
\<close>

type_synonym jsobject = "(jsstring \<times> jsstring) list"

fun setOwnProperty :: "jsobject \<Rightarrow> jsstring \<Rightarrow> jsstring \<Rightarrow> jsobject" where
  "setOwnProperty [] k v = [(k, v)]"
| "setOwnProperty ((k', v') # ps) k v =
     (if k' = k then (k, v) # ps else (k', v') # setOwnProperty ps k v)"

definition assignProperty :: "jsobject \<Rightarrow> jsstring \<Rightarrow> jsstring \<Rightarrow> jsobject" where
  "assignProperty obj k v = (if k = js ''__proto__'' then obj else setOwnProperty obj k v)"

text \<open>A \<open>Set\<close> of strings keeps its members in the order of their first insertion.\<close>

definition setAdd :: "jsstring list \<Rightarrow> jsstring \<Rightarrow> jsstring list" where
  "setAdd s x = (if x \<in> set s then s else s @ [x])"

record QueryResult =
  columns :: "jsstring list"
  rows :: "jsobject list"
  rawXml :: "jsstring option"
  executionTimeMs :: int

text \<open>
  Every failure of the program is \<open>throw new Error(message)\<close>; one constructor stands for
  each place that throws, and \<open>errorMessage\<close> gives the message. The specification calls
  \<open>ServerReturned\<close> the HTTP error, \<open>OracleSoapFault\<close> the server fault, \<open>NoReportBytes\<close>
  the empty payload and \<open>ErrorParsingResponseXml\<close> the malformed report XML. No place of
  the program throws for a response body that does not parse.
\<close>

datatype error =
    NetworkError
  | FetchRejected jsstring jsstring
  | ServerReturned "16 word" jsstring
  | OracleSoapFault jsstring
  | NoReportBytes
  | ErrorParsingResponseXml

definition errorMessage :: "error \<Rightarrow> jsstring" where
  "errorMessage e =
     (case e of
        NetworkError \<Rightarrow>
          js ''Network Error: Failed to fetch.'' @ [0x0A, 0x0A] @
          js ''Cause: This is likely a Cross-Origin (CORS) restriction by the browser.'' @ [0x0A] @
          js ''Solution: Go to Settings and configure a CORS Proxy (e.g. https://corsproxy.io).''
      | FetchRejected name message \<Rightarrow> message
      | ServerReturned status detail \<Rightarrow>
          js ''Server returned '' @ numberToString (safe (uint status)) @ js '': '' @ detail
      | OracleSoapFault text \<Rightarrow> js ''Oracle SOAP Fault: '' @ text
      | NoReportBytes \<Rightarrow>
          js ''No 'reportBytes' found in response. The report might have failed to generate output or the user permissions are insufficient.''
      | ErrorParsingResponseXml \<Rightarrow> js ''Error parsing response XML from Oracle.'')"

text \<open>
  The two loops of \<open>parseOracleXML\<close>, with \<open>rowData\<close>, \<open>columnsSet\<close> and \<open>resultRows\<close> as
  arguments:
  \<^verbatim>\<open>
  for (let i = 0; i < rows.length; i++) {
    const row = rows[i];
    if (row.nodeType !== 1) continue;
    const rowData = {};
    for (let j = 0; j < row.children.length; j++) {
      const col = row.children[j];
      rowData[col.nodeName] = col.textContent || "";
      columnsSet.add(col.nodeName);
    }
    resultRows.push(rowData);
  }
  \<close>
  \<open>col.textContent || ""\<close> is \<open>col.textContent\<close>: the only string that \<open>||\<close> replaces is
  the empty one.
\<close>

fun colLoop :: "node list \<Rightarrow> jsobject \<times> jsstring list \<Rightarrow> jsobject \<times> jsstring list" where
  "colLoop [] (rowData, columnsSet) = (rowData, columnsSet)"
| "colLoop (col # rest) (rowData, columnsSet) =
     colLoop rest
       (assignProperty rowData (nodeName col) (textContent col),
        setAdd columnsSet (nodeName col))"

fun rowLoop ::
  "node list \<Rightarrow> jsobject list \<times> jsstring list \<Rightarrow> jsobject list \<times> jsstring list" where
  "rowLoop [] (resultRows, columnsSet) = (resultRows, columnsSet)"
| "rowLoop (row # rest) (resultRows, columnsSet) =
     (if nodeType row \<noteq> 1 then rowLoop rest (resultRows, columnsSet)
      else
        (let (rowData, columnsSet') = colLoop (children row) ([], columnsSet)
         in rowLoop rest (resultRows @ [rowData], columnsSet')))"

definition parseOracleXML :: "(jsstring \<Rightarrow> document) \<Rightarrow> jsstring \<Rightarrow> error + QueryResult" where
  "parseOracleXML domParser xmlString =
     (let xmlDoc = domParser xmlString;
          parseError = getElementsByTagName xmlDoc (js ''parsererror'')
      in if length parseError > 0 then Inl ErrorParsingResponseXml
         else
           (let root = documentElement xmlDoc;
                rows = children root
            in if length rows = 0
               then Inr \<lparr>columns = [], rows = [], rawXml = Some xmlString, executionTimeMs = 0\<rparr>
               else
                 (let (resultRows, columnsSet) = rowLoop rows ([], [])
                  in Inr \<lparr>columns = columnsSet, rows = resultRows,
                          rawXml = Some xmlString, executionTimeMs = 0\<rparr>)))"

subsection \<open>The SOAP call\<close>

text \<open>
  What \<open>fetch\<close> gives back: a rejection with the name and message of the error, or a
  response with its status, an unsigned 16-bit number, and its body text; \<open>response.ok\<close> is
  a status from 200 to 299.
\<close>

record Response =
  status :: "16 word"
  body :: jsstring

datatype fetchOutcome = Rejected jsstring jsstring | Responded Response

definition ok :: "Response \<Rightarrow> bool" where
  "ok response = (200 \<le> status response \<and> status response \<le> 299)"

text \<open>
  \<open>text.match(/<faultstring>(.*?)<\/faultstring>/s)\<close>: the match starts at the first
  \<open><faultstring>\<close> and its group runs up to the first \<open></faultstring>\<close> after that; when
  no closing tag follows the first opening tag, none follows a later one either, and
  there is no match.
\<close>

definition faultMatch :: "jsstring \<Rightarrow> jsstring option" where
  "faultMatch text =
     (case indexOf text (js ''<faultstring>'') of
        None \<Rightarrow> None
      | Some i \<Rightarrow>
          (let rest = drop (i + length (js ''<faultstring>'')) text in
           case indexOf rest (js ''</faultstring>'') of
             None \<Rightarrow> None
           | Some j \<Rightarrow> Some (take j rest)))"

text \<open>\<open>list[0] || other[0] || ...\<close>: the first element of the first list that has one.\<close>

fun firstOf :: "node list list \<Rightarrow> node option" where
  "firstOf [] = None"
| "firstOf ([] # ls) = firstOf ls"
| "firstOf ((n # ns) # ls) = Some n"

text \<open>
  The environment of one call: the browser's \<open>fetch\<close> and \<open>DOMParser\<close>, and the rounded
  time that \<open>performance.now()\<close> measures around the call.
\<close>

record environment =
  fetch :: "jsstring \<Rightarrow> jsstring \<Rightarrow> fetchOutcome"
  domParser :: "jsstring \<Rightarrow> document"
  elapsedMs :: int

text \<open>Steps 5 to 7 of \<open>executeSoapQuery\<close>, from the outcome of \<open>fetch\<close> on.\<close>

definition handleOutcome :: "environment \<Rightarrow> fetchOutcome \<Rightarrow> error + QueryResult" where
  "handleOutcome env outcome =
     (case outcome of
        Rejected name message \<Rightarrow>
          (if name = js ''TypeError'' \<and> message = js ''Failed to fetch'' then Inl NetworkError
           else Inl (FetchRejected name message))
      | Responded response \<Rightarrow>
          (if \<not> ok response then
             (let text = body response in
              case faultMatch text of
                Some m \<Rightarrow>
                  (if m \<noteq> [] then Inl (ServerReturned (status response) m)
                   else Inl (ServerReturned (status response) text))
              | None \<Rightarrow> Inl (ServerReturned (status response) text))
           else
             (let responseText = body response;
                  doc = domParser env responseText
              in case firstOf [getElementsByTagName doc (js ''faultstring''),
                               getElementsByTagName doc (js ''soapenv:Fault'')] of
                   Some fault \<Rightarrow> Inl (OracleSoapFault (textContent fault))
                 | None \<Rightarrow>
                     (case firstOf [getElementsByTagName doc (js ''reportBytes''),
                                    getElementsByTagName doc (js ''v2:reportBytes''),
                                    getElementsByTagName doc (js ''ns2:reportBytes'')] of
                        None \<Rightarrow> Inl NoReportBytes
                      | Some reportBytesNode \<Rightarrow>
                          (if textContent reportBytesNode = [] then Inl NoReportBytes
                           else
                             (let base64Data = textContent reportBytesNode;
                                  decodedXml = decodeBase64 base64Data
                              in case parseOracleXML (domParser env) decodedXml of
                                   Inl e \<Rightarrow> Inl e
                                 | Inr result \<Rightarrow>
                                     Inr (result\<lparr>executionTimeMs := elapsedMs env\<rparr>)))))))"

definition executeSoapQuery ::
  "environment \<Rightarrow> jsstring \<Rightarrow> ConnectionConfig \<Rightarrow> safeInteger \<Rightarrow> error + QueryResult" where
  "executeSoapQuery env query config rowLimit =
     (let parametersXml = prepareSqlParameters query rowLimit;
          soapBody = soapBody config parametersXml;
          fetchUrl = fetchUrl config
      in handleOutcome env (fetch env fetchUrl soapBody))"




text \<open>
  The order of first appearance once more, through \<open>remdups\<close>, which keeps the last
  occurrence of each member.
\<close>

definition firstSeen :: "'a list \<Rightarrow> 'a list" where
  "firstSeen xs = rev (remdups (rev xs))"

subsection \<open>Notions for the Base64 round trip\<close>

text \<open>
  The six-bit values and the padding that \<open>sextets\<close> writes, apart; the character code of
  a six-bit value as a number; the scalar values of Unicode; and the strings without an
  unpaired surrogate, which are the strings that UTF-8 can write.
\<close>

fun sixes :: "nat list \<Rightarrow> nat list" where
  "sixes (a # b # c # rest) =
     (a div 4) # (a mod 4 * 16 + b div 16) # (b mod 16 * 4 + c div 64) # (c mod 64) # sixes rest"
| "sixes [a, b] = [a div 4, a mod 4 * 16 + b div 16, b mod 16 * 4]"
| "sixes [a] = [a div 4, a mod 4 * 16]"
| "sixes [] = []"

fun padding :: "nat list \<Rightarrow> jsstring" where
  "padding (a # b # c # rest) = padding rest"
| "padding [a, b] = [0x3D]"
| "padding [a] = [0x3D, 0x3D]"
| "padding [] = []"

definition b64code :: "nat \<Rightarrow> nat" where
  "b64code v =
     (if v < 26 then 0x41 + v else if v < 52 then 0x61 + (v - 26)
      else if v < 62 then 0x30 + (v - 52) else if v = 62 then 0x2B else 0x2F)"

definition isScalarValue :: "nat \<Rightarrow> bool" where
  "isScalarValue cp = (cp < 0xD800 \<or> (0xE000 \<le> cp \<and> cp < 0x110000))"

fun wellFormed :: "jsstring \<Rightarrow> bool" where
  "wellFormed [] = True"
| "wellFormed [c] = (\<not> isLeadSurrogate c \<and> \<not> isTrailSurrogate c)"
| "wellFormed (c # d # cs) =
     (if isLeadSurrogate c then isTrailSurrogate d \<and> wellFormed cs
      else \<not> isTrailSurrogate c \<and> wellFormed (d # cs))"

subsection \<open>Notions for decimal texts\<close>

text \<open>A decimal digit, and the number that a run of decimal digits denotes.\<close>

definition spec_isDecimalDigit :: "code_unit \<Rightarrow> bool" where
  "spec_isDecimalDigit c = (0x30 \<le> unat c \<and> unat c \<le> 0x39)"

definition spec_decimalValue :: "jsstring \<Rightarrow> nat" where
  "spec_decimalValue ds = foldl (\<lambda>acc c. acc * 10 + (unat c - 0x30)) 0 ds"

section \<open>Properties\<close>

subsection \<open>Strings\<close>

lemma js_append: "js (a @ b) = js a @ js b"
  by (simp add: js_def)

lemma endsWith_single: "endsWith s [c] = (s \<noteq> [] \<and> last s = c)"
proof (cases s rule: rev_cases)
  case Nil
  then show ?thesis by (simp add: endsWith_def)
next
  case (snoc ys y)
  then show ?thesis by (auto simp: endsWith_def)
qed

lemma slice_0_m1_butlast: "slice_0_m1 s = butlast s"
  by (simp add: slice_0_m1_def butlast_conv_take)

lemma dropWhile_split:
  "\<exists>pre. s = pre @ dropWhile P s \<and> list_all P pre"
proof
  show "s = takeWhile P s @ dropWhile P s \<and> list_all P (takeWhile P s)"
    by (simp add: list_all_iff) (meson set_takeWhileD)
qed

lemma trim_split:
  "\<exists>pre post. s = pre @ trim s @ post \<and> list_all isWhiteSpace pre \<and> list_all isWhiteSpace post"
proof -
  obtain pre where pre: "s = pre @ dropWhile isWhiteSpace s" "list_all isWhiteSpace pre"
    using dropWhile_split by blast
  define m where "m = dropWhile isWhiteSpace s"
  obtain q where q: "rev m = q @ dropWhile isWhiteSpace (rev m)" "list_all isWhiteSpace q"
    using dropWhile_split by blast
  have "m = rev (dropWhile isWhiteSpace (rev m)) @ rev q"
    using q(1) by (metis rev_append rev_rev_ident)
  then have "s = pre @ trim s @ rev q"
    using pre(1) by (simp add: trim_def m_def)
  moreover have "list_all isWhiteSpace (rev q)"
    using q(2) by (simp add: list_all_iff)
  ultimately show ?thesis
    using pre(2) by blast
qed

lemma trim_first: "trim s \<noteq> [] \<Longrightarrow> \<not> isWhiteSpace (hd (trim s))"
proof -
  assume ne: "trim s \<noteq> []"
  define m where "m = dropWhile isWhiteSpace s"
  have t: "trim s = rev (dropWhile isWhiteSpace (rev m))"
    by (simp add: trim_def m_def)
  have mne: "m \<noteq> []"
    using ne t by auto
  have hm: "\<not> isWhiteSpace (hd m)"
    using mne unfolding m_def by (rule hd_dropWhile)
  have "\<exists>q. m = trim s @ q"
    using t by (metis takeWhile_dropWhile_id rev_append rev_rev_ident)
  then obtain q where "m = trim s @ q" ..
  then have "hd m = hd (trim s)"
    using ne by (metis hd_append2)
  then show ?thesis
    using hm by simp
qed

lemma trim_last: "trim s \<noteq> [] \<Longrightarrow> \<not> isWhiteSpace (last (trim s))"
proof -
  assume ne: "trim s \<noteq> []"
  define r where "r = dropWhile isWhiteSpace (rev (dropWhile isWhiteSpace s))"
  have t: "trim s = rev r"
    by (simp add: trim_def r_def)
  then have "r \<noteq> []"
    using ne by auto
  then have "\<not> isWhiteSpace (hd r)"
    unfolding r_def by (rule hd_dropWhile)
  then show ?thesis
    using t \<open>r \<noteq> []\<close> by (simp add: last_rev)
qed


subsection \<open>Numbers\<close>

lemma Rep_safe: "\<bar>n\<bar> < 2 ^ 53 \<Longrightarrow> Rep_safeInteger (safe n) = n"
  by (simp add: safe_def Abs_safeInteger_inverse)

lemma Rep_safe_small [simp]:
  "Rep_safeInteger (safe 100) = 100" "Rep_safeInteger (safe 5) = 5"
  "Rep_safeInteger (safe (- 5)) = - 5" "Rep_safeInteger (safe 250) = 250"
  "Rep_safeInteger (safe 0) = 0"
  by (simp_all add: Rep_safe)

lemma safe_Rep: "safe (Rep_safeInteger x) = x"
  by (simp add: safe_def Rep_safeInteger_inverse)

lemma Rep_safe_bound: "\<bar>Rep_safeInteger x\<bar> < 2 ^ 53"
  using Rep_safeInteger [of x] by simp

lemma unat_digit: "d < 10 \<Longrightarrow> unat (of_nat (48 + d) :: 16 word) = 48 + d"
  by (simp add: unat_of_nat del: of_nat_add)

lemma decimalDigits_small: "n < 10 \<Longrightarrow> decimalDigits n = [of_nat (48 + n)]"
  by (simp add: decimalDigits.simps)

lemma decimalDigits_large:
  "\<not> n < 10 \<Longrightarrow> decimalDigits n = decimalDigits (n div 10) @ [of_nat (48 + n mod 10)]"
  by (subst decimalDigits.simps) simp

lemma decimalDigits_nonempty: "decimalDigits n \<noteq> []"
  by (cases "n < 10") (simp_all add: decimalDigits_small decimalDigits_large)

lemma decimalDigits_digits: "list_all spec_isDecimalDigit (decimalDigits n)"
proof (induction n rule: decimalDigits.induct)
  case (1 n)
  show ?case
  proof (cases "n < 10")
    case True
    then show ?thesis
      by (simp add: decimalDigits_small spec_isDecimalDigit_def unat_digit del: of_nat_add)
  next
    case False
    have "n mod 10 < 10"
      by simp
    then have "spec_isDecimalDigit (of_nat (48 + n mod 10))"
      unfolding spec_isDecimalDigit_def by (simp add: unat_digit del: of_nat_add)
    then show ?thesis
      using False 1 by (simp add: decimalDigits_large del: of_nat_add)
  qed
qed

lemma decimalValue_snoc:
  "spec_decimalValue (ds @ [c]) = spec_decimalValue ds * 10 + (unat c - 0x30)"
  by (simp add: spec_decimalValue_def)

lemma decimalDigits_value: "spec_decimalValue (decimalDigits n) = n"
proof (induction n rule: decimalDigits.induct)
  case (1 n)
  show ?case
  proof (cases "n < 10")
    case True
    then show ?thesis
      by (simp add: decimalDigits_small spec_decimalValue_def unat_digit del: of_nat_add)
  next
    case False
    have "n mod 10 < 10"
      by simp
    then have "unat (of_nat (48 + n mod 10) :: 16 word) - 0x30 = n mod 10"
      by (simp add: unat_digit del: of_nat_add)
    then show ?thesis
      using False 1 by (simp add: decimalDigits_large decimalValue_snoc del: of_nat_add)
  qed
qed

lemma decimalDigits_no_leading_zero:
  "1 < length (decimalDigits n) \<Longrightarrow> hd (decimalDigits n) \<noteq> 0x30"
proof (induction n rule: decimalDigits.induct)
  case (1 n)
  show ?case
  proof (cases "n < 10")
    case True
    then show ?thesis
      using "1.prems" by (simp add: decimalDigits_small)
  next
    case False
    define m where "m = n div 10"
    have m: "0 < m"
      using False unfolding m_def by simp
    have h: "hd (decimalDigits n) = hd (decimalDigits m)"
      using False decimalDigits_nonempty [of m] by (simp add: decimalDigits_large m_def)
    show ?thesis
    proof (cases "m < 10")
      case True
      have u: "unat (of_nat (48 + m) :: 16 word) = 48 + m"
        using True by (rule unat_digit)
      have "(of_nat (48 + m) :: 16 word) \<noteq> 0x30"
      proof
        assume "(of_nat (48 + m) :: 16 word) = 0x30"
        then have "unat (of_nat (48 + m) :: 16 word) = unat (0x30 :: 16 word)"
          by (rule arg_cong)
        then show False
          using m unfolding u by simp
      qed
      then show ?thesis
        using True h by (simp add: decimalDigits_small del: of_nat_add)
    next
      case False2: False
      have e: "decimalDigits m = decimalDigits (m div 10) @ [of_nat (48 + m mod 10)]"
        using False2 by (rule decimalDigits_large)
      have "1 < length (decimalDigits m)"
        unfolding e using decimalDigits_nonempty [of "m div 10"]
        by (cases "decimalDigits (m div 10)") simp_all
      then show ?thesis
        using "1.IH" [OF False] h unfolding m_def by simp
    qed
  qed
qed

lemma numberToString_spec:
  "\<exists>ds. numberToString x = (if Rep_safeInteger x < 0 then 0x2D # ds else ds)
     \<and> ds \<noteq> [] \<and> list_all spec_isDecimalDigit ds
     \<and> int (spec_decimalValue ds) = \<bar>Rep_safeInteger x\<bar>
     \<and> (1 < length ds \<longrightarrow> hd ds \<noteq> 0x30)"
proof -
  define ds where "ds = decimalDigits (nat \<bar>Rep_safeInteger x\<bar>)"
  have "numberToString x = (if Rep_safeInteger x < 0 then 0x2D # ds else ds)"
    by (simp add: numberToString_def ds_def Let_def)
  moreover have "ds \<noteq> []" "list_all spec_isDecimalDigit ds"
      "int (spec_decimalValue ds) = \<bar>Rep_safeInteger x\<bar>"
      "1 < length ds \<longrightarrow> hd ds \<noteq> 0x30"
    unfolding ds_def
    using decimalDigits_nonempty decimalDigits_digits decimalDigits_no_leading_zero
    by (simp_all add: decimalDigits_value)
  ultimately show ?thesis
    by blast
qed


subsection \<open>Sanitising and wrapping\<close>

lemma isWhiteSpace_unat:
  "isWhiteSpace c =
     (unat c \<in> {0x09, 0x0A, 0x0B, 0x0C, 0x0D, 0x20, 0xA0, 0x1680, 0x2028, 0x2029, 0x202F,
                0x205F, 0x3000, 0xFEFF}
      \<or> (0x2000 \<le> unat c \<and> unat c \<le> 0x200A))"
proof -
  have "(c = w) = (unat c = unat w)" for w
    by (simp add: word_unat_eq_iff)
  then show ?thesis
    unfolding isWhiteSpace_def by (auto simp: word_le_nat_alt)
qed

text \<open>
  C6. The statement is trimmed, whitespace being the white space and line terminator
  characters of ECMAScript: what is removed on either side is whitespace only, and
  what remains neither starts nor ends with whitespace. If the trimmed statement ends
  with a semicolon, exactly that one code unit is removed, even when another semicolon
  precedes it. The result is placed between \<open>SELECT * FROM (\<close> and \<open>) WHERE rownum <= \<close>
  followed by the row limit as the template literal prints it: for a limit that is a safe
  integer, a minus sign if it is negative and then the decimal digits of its magnitude,
  without a leading zero. \<open>SELECT 1;\<close> becomes \<open>SELECT 1\<close>, and \<open>SELECT 1\<close> is unchanged.
\<close>

theorem sanitize_then_wrap:
  "wrappedSql sql rowLimit =
     js ''SELECT * FROM ('' @ cleanSql sql @ js '') WHERE rownum <= '' @ numberToString rowLimit
   \<and> (\<exists>ds. numberToString rowLimit = (if Rep_safeInteger rowLimit < 0 then 0x2D # ds else ds)
         \<and> ds \<noteq> [] \<and> list_all spec_isDecimalDigit ds
         \<and> int (spec_decimalValue ds) = \<bar>Rep_safeInteger rowLimit\<bar>
         \<and> (1 < length ds \<longrightarrow> hd ds \<noteq> 0x30))
   \<and> cleanSql sql =
     (if trim sql \<noteq> [] \<and> last (trim sql) = 0x3B then butlast (trim sql) else trim sql)
   \<and> (\<exists>pre post. sql = pre @ trim sql @ post \<and>
         list_all isWhiteSpace pre \<and> list_all isWhiteSpace post)
   \<and> (trim sql \<noteq> [] \<longrightarrow>
         \<not> isWhiteSpace (hd (trim sql)) \<and> \<not> isWhiteSpace (last (trim sql)))
   \<and> (\<forall>c. isWhiteSpace c =
         (unat c \<in> {0x09, 0x0A, 0x0B, 0x0C, 0x0D, 0x20, 0xA0, 0x1680, 0x2028, 0x2029, 0x202F,
                    0x205F, 0x3000, 0xFEFF}
          \<or> (0x2000 \<le> unat c \<and> unat c \<le> 0x200A)))
   \<and> cleanSql (js ''SELECT 1;'') = js ''SELECT 1''
   \<and> cleanSql (js ''SELECT 1'') = js ''SELECT 1''
   \<and> cleanSql (js ''SELECT 1;;'') = js ''SELECT 1;''"
proof -
  have "\<forall>c. isWhiteSpace c =
         (unat c \<in> {0x09, 0x0A, 0x0B, 0x0C, 0x0D, 0x20, 0xA0, 0x1680, 0x2028, 0x2029, 0x202F,
                    0x205F, 0x3000, 0xFEFF}
          \<or> (0x2000 \<le> unat c \<and> unat c \<le> 0x200A))"
    using isWhiteSpace_unat by blast
  moreover
  have "wrappedSql sql rowLimit =
     js ''SELECT * FROM ('' @ cleanSql sql @ js '') WHERE rownum <= '' @ numberToString rowLimit"
    by (simp add: wrappedSql_def)
  moreover have "\<exists>ds. numberToString rowLimit =
        (if Rep_safeInteger rowLimit < 0 then 0x2D # ds else ds)
         \<and> ds \<noteq> [] \<and> list_all spec_isDecimalDigit ds
         \<and> int (spec_decimalValue ds) = \<bar>Rep_safeInteger rowLimit\<bar>
         \<and> (1 < length ds \<longrightarrow> hd ds \<noteq> 0x30)"
    by (rule numberToString_spec)
  moreover have "cleanSql sql =
     (if trim sql \<noteq> [] \<and> last (trim sql) = 0x3B then butlast (trim sql) else trim sql)"
    by (simp add: cleanSql_def Let_def js_def endsWith_single slice_0_m1_butlast)
  moreover have "\<exists>pre post. sql = pre @ trim sql @ post \<and>
     list_all isWhiteSpace pre \<and> list_all isWhiteSpace post"
    by (rule trim_split)
  moreover have "trim sql \<noteq> [] \<longrightarrow>
     \<not> isWhiteSpace (hd (trim sql)) \<and> \<not> isWhiteSpace (last (trim sql))"
    by (simp add: trim_first trim_last)
  moreover have "cleanSql (js ''SELECT 1;'') = js ''SELECT 1''"
    by (simp add: cleanSql_def trim_def endsWith_def slice_0_m1_def js_def isWhiteSpace_def)
  moreover have "cleanSql (js ''SELECT 1'') = js ''SELECT 1''"
    by (simp add: cleanSql_def trim_def endsWith_def slice_0_m1_def js_def isWhiteSpace_def)
  moreover have "cleanSql (js ''SELECT 1;;'') = js ''SELECT 1;''"
    by (simp add: cleanSql_def trim_def endsWith_def slice_0_m1_def js_def isWhiteSpace_def)
  ultimately show ?thesis
    by blast
qed

theorem sanitize_then_wrap_witness:
  "wrappedSql (js '' SELECT 1; '') (safe 100) = js ''SELECT * FROM (SELECT 1) WHERE rownum <= 100''
   \<and> trim (js '' SELECT 1; '') = js ''SELECT 1;''
   \<and> \<not> isWhiteSpace (hd (trim (js '' SELECT 1; '')))
   \<and> \<not> isWhiteSpace (last (trim (js '' SELECT 1; '')))"
proof -
  have t: "trim (js '' SELECT 1; '') = js ''SELECT 1;''"
    by (simp add: trim_def js_def isWhiteSpace_def)
  have n: "numberToString (safe 100) = js ''100''"
    by (simp add: numberToString_def decimalDigits.simps js_def)
  have ne: "trim (js '' SELECT 1; '') \<noteq> []"
    unfolding t by (simp add: js_def)
  have c: "cleanSql (js '' SELECT 1; '') = js ''SELECT 1''"
    unfolding cleanSql_def t by (simp add: endsWith_def slice_0_m1_def js_def)
  have w: "wrappedSql (js '' SELECT 1; '') (safe 100) =
      js ''SELECT * FROM (SELECT 1) WHERE rownum <= 100''"
    unfolding wrappedSql_def c n by (simp add: js_def)
  show ?thesis
    using sanitize_then_wrap [of "js '' SELECT 1; ''" "safe 100"] ne w t
    by blast
qed


subsection \<open>Base64 and UTF-8 round trip\<close>

lemma sextets_sixes: "sextets ns = map b64char (sixes ns) @ padding ns"
  by (induction ns rule: sextets.induct) auto

lemma sixes_bound: "\<forall>n\<in>set ns. n < 256 \<Longrightarrow> \<forall>v\<in>set (sixes ns). v < 64"
  by (induction ns rule: sixes.induct) auto

lemma octets_sixes: "\<forall>n\<in>set ns. n < 256 \<Longrightarrow> octets (sixes ns) = ns"
  by (induction ns rule: sixes.induct) auto

lemma length_sixes_padding:
  "(length (sixes ns) + length (padding ns)) mod 4 = 0 \<and> length (sixes ns) mod 4 \<noteq> 1
   \<and> (padding ns = [] \<or> padding ns = [0x3D] \<or> padding ns = [0x3D, 0x3D])"
  by (induction ns rule: sixes.induct) auto

lemma unat_of_nat16: "n < 65536 \<Longrightarrow> unat (of_nat n :: 16 word) = n"
  by (simp add: unat_of_nat)

lemma unat_of_nat8: "n < 256 \<Longrightarrow> unat (of_nat n :: 8 word) = n"
  by (simp add: unat_of_nat)

lemma b64char_code: "b64char v = of_nat (b64code v)"
  by (simp add: b64char_def b64code_def del: of_nat_add)

lemma b64code_bound: "b64code v < 65536" if "v < 64"
  using that by (simp add: b64code_def; arith)

lemma b64value_unat:
  "b64value c =
     (if 0x41 \<le> unat c \<and> unat c \<le> 0x5A then Some (unat c - 0x41)
      else if 0x61 \<le> unat c \<and> unat c \<le> 0x7A then Some (unat c - 0x61 + 26)
      else if 0x30 \<le> unat c \<and> unat c \<le> 0x39 then Some (unat c - 0x30 + 52)
      else if unat c = 0x2B then Some 62
      else if unat c = 0x2F then Some 63
      else None)"
proof -
  have e: "(c = 0x2B) = (unat c = 0x2B)" "(c = 0x2F) = (unat c = 0x2F)"
    by (simp_all add: word_unat_eq_iff)
  show ?thesis
    unfolding b64value_def e by (simp add: word_le_nat_alt)
qed

lemma b64value_b64char: "v < 64 \<Longrightarrow> b64value (b64char v) = Some v"
  unfolding b64value_unat b64char_code
  by (simp add: unat_of_nat16 b64code_bound) (simp add: b64code_def; arith)

lemma isAsciiWhitespace_unat:
  "isAsciiWhitespace c =
     (unat c = 0x09 \<or> unat c = 0x0A \<or> unat c = 0x0C \<or> unat c = 0x0D \<or> unat c = 0x20)"
proof -
  have "(c = w) = (unat c = unat w)" for w
    by (simp add: word_unat_eq_iff)
  then show ?thesis
    unfolding isAsciiWhitespace_def by simp
qed

lemma b64char_not_space: "v < 64 \<Longrightarrow> \<not> isAsciiWhitespace (b64char v)"
  unfolding isAsciiWhitespace_unat b64char_code
  by (simp add: unat_of_nat16 b64code_bound) (simp add: b64code_def; arith)

lemma b64char_not_pad: "v < 64 \<Longrightarrow> b64char v \<noteq> 0x3D"
proof
  assume v: "v < 64" and "b64char v = 0x3D"
  then have "unat (b64char v) = unat (0x3D :: 16 word)"
    by simp
  then show False
    unfolding b64char_code using v
    by (simp add: unat_of_nat16 b64code_bound) (simp add: b64code_def split: if_splits; arith)
qed

lemma those_b64value:
  "\<forall>v\<in>set vs. v < 64 \<Longrightarrow> those (map b64value (map b64char vs)) = Some vs"
  by (induction vs) (simp_all add: b64value_b64char)

lemma endsWith_two: "endsWith s [c, d] = (\<exists>r. s = r @ [c, d])"
proof
  assume "endsWith s [c, d]"
  then have "s = take (length s - 2) s @ [c, d]"
    unfolding endsWith_def by (metis append_take_drop_id length_Cons list.size(3) numeral_2_eq_2)
  then show "\<exists>r. s = r @ [c, d]" ..
next
  assume "\<exists>r. s = r @ [c, d]"
  then show "endsWith s [c, d]"
    by (auto simp: endsWith_def)
qed

lemma stripPadding_sextets:
  assumes "\<forall>v\<in>set vs. v < 64" and "(length vs + length pad) mod 4 = 0"
    and "pad = [] \<or> pad = [0x3D] \<or> pad = [0x3D, 0x3D]"
  shows "stripPadding (map b64char vs @ pad) = map b64char vs"
proof -
  have np: "\<forall>c\<in>set (map b64char vs). c \<noteq> 0x3D"
    using assms(1) b64char_not_pad by auto
  have l: "map b64char vs \<noteq> [] \<Longrightarrow> last (map b64char vs) \<noteq> 0x3D"
    using np last_in_set by blast
  consider "pad = []" | "pad = [0x3D]" | "pad = [0x3D, 0x3D]"
    using assms(3) by blast
  then show ?thesis
  proof cases
    case 1
    have a: "\<not> endsWith (map b64char vs) [0x3D, 0x3D]"
      unfolding endsWith_two using np by (metis in_set_conv_decomp)
    have b: "\<not> endsWith (map b64char vs) [0x3D]"
      unfolding endsWith_single using l by blast
    show ?thesis
      using a b by (simp add: stripPadding_def 1 js_def)
  next
    case 2
    have a: "\<not> endsWith (map b64char vs @ [0x3D]) [0x3D, 0x3D]"
    proof
      assume "endsWith (map b64char vs @ [0x3D]) [0x3D, 0x3D]"
      then obtain r where "map b64char vs @ [0x3D] = r @ [0x3D, 0x3D]"
        unfolding endsWith_two ..
      then have "map b64char vs = r @ [0x3D]"
        by (metis append.assoc append_Cons append_Nil butlast_snoc)
      then show False
        using np by (metis in_set_conv_decomp)
    qed
    have b: "endsWith (map b64char vs @ [0x3D]) [0x3D]"
      by (simp add: endsWith_single)
    have m: "Suc (length vs) mod 4 = 0"
      using assms(2) 2 by simp
    show ?thesis
      using a b m by (simp add: stripPadding_def 2 js_def)
  next
    case 3
    have a: "endsWith (map b64char vs @ [0x3D, 0x3D]) [0x3D, 0x3D]"
      unfolding endsWith_two by blast
    have m: "Suc (Suc (length vs)) mod 4 = 0"
      using assms(2) 3 by simp
    show ?thesis
      using a m by (simp add: stripPadding_def 3 js_def)
  qed
qed

lemma atob_btoa: "atob (btoa bytes) = Some bytes"
proof -
  define ns where "ns = map unat bytes"
  define vs where "vs = sixes ns"
  have nb: "\<forall>n\<in>set ns. n < 256"
  proof
    fix n assume "n \<in> set ns"
    then obtain b :: byte where "n = unat b"
      by (auto simp: ns_def)
    then show "n < 256"
      using unsigned_less [of b] by simp
  qed
  have vb: "\<forall>v\<in>set vs. v < 64"
    unfolding vs_def using nb by (rule sixes_bound)
  have lp: "(length vs + length (padding ns)) mod 4 = 0" "length vs mod 4 \<noteq> 1"
      "padding ns = [] \<or> padding ns = [0x3D] \<or> padding ns = [0x3D, 0x3D]"
    unfolding vs_def using length_sixes_padding [of ns] by auto
  have b: "btoa bytes = map b64char vs @ padding ns"
    by (simp add: btoa_def sextets_sixes ns_def vs_def)
  have w: "\<forall>c\<in>set (map b64char vs @ padding ns). \<not> isAsciiWhitespace c"
    using vb lp(3) b64char_not_space by (auto simp: isAsciiWhitespace_def)
  have f: "filter (\<lambda>c. \<not> isAsciiWhitespace c) (btoa bytes) = map b64char vs @ padding ns"
    unfolding b using w by (simp only: filter_True)
  have s: "stripPadding (map b64char vs @ padding ns) = map b64char vs"
    using vb lp(1) lp(3) by (rule stripPadding_sextets)
  have t: "those (map b64value (map b64char vs)) = Some vs"
    using vb by (rule those_b64value)
  have o: "map of_nat (octets vs) = bytes"
    unfolding vs_def octets_sixes [OF nb] by (simp add: ns_def comp_def)
  show ?thesis
    unfolding atob_def f s Let_def using lp(2) t o by simp
qed

lemma mod_offset: "x < m \<Longrightarrow> (k * m + x) mod m = x" for x m k :: nat
  by simp
lemma m16: "q < 16 \<Longrightarrow> (0xE0 + q) mod 0x10 = q" for q :: nat
  using mod_offset [of q 16 14] by simp
lemma m32: "q < 32 \<Longrightarrow> (0xC0 + q) mod 0x20 = q" for q :: nat
  using mod_offset [of q 32 6] by simp
lemma m8: "q < 8 \<Longrightarrow> (0xF0 + q) mod 0x08 = q" for q :: nat
  using mod_offset [of q 8 30] by simp
lemma m64: "q < 64 \<Longrightarrow> (0x80 + q) mod 0x40 = q" for q :: nat
  using mod_offset [of q 64 2] by simp
lemma d1: "cp < 0x800 \<Longrightarrow> cp div 0x40 < 0x20" for cp :: nat
  by (simp add: div_less_iff_less_mult)
lemma d2: "0x80 \<le> cp \<Longrightarrow> 2 \<le> cp div 0x40" for cp :: nat
  by (simp add: less_eq_div_iff_mult_less_eq)
lemma d3: "cp div 0x1000 = cp div 0x40 div 0x40" for cp :: nat
  by (simp add: div_mult2_eq[symmetric])
lemma d4: "cp div 0x40000 = cp div 0x40 div 0x40 div 0x40" for cp :: nat
  by (simp add: div_mult2_eq[symmetric])
lemma decode_digits1: "cp < 0x80 \<Longrightarrow>
    utf8DecodeFrom utf8init (cp # rest) = cp # utf8DecodeFrom utf8init rest"
  by (simp add: handleByte_def startByte_def utf8init_def)

lemma decode_digits2:
  assumes "2 \<le> q" "q < 32" "r < 64"
  shows "utf8DecodeFrom utf8init ((0xC0 + q) # (0x80 + r) # rest) =
     (q * 0x40 + r) # utf8DecodeFrom utf8init rest"
proof -
  have s: "startByte (0xC0 + q) = ([], utf8init\<lparr>bytesNeeded := 1, codePoint := q\<rparr>)"
    using assms by (simp add: startByte_def m32)
  show ?thesis
    using assms by (simp add: handleByte_def s m64) (simp add: utf8init_def)
qed

lemma decode_digits3:
  assumes "q < 16" "m < 64" "r < 64" "q = 0 \<longrightarrow> 32 \<le> m" "q = 13 \<longrightarrow> m < 32"
  shows "utf8DecodeFrom utf8init ((0xE0 + q) # (0x80 + m) # (0x80 + r) # rest) =
     ((q * 0x40 + m) * 0x40 + r) # utf8DecodeFrom utf8init rest"
proof -
  define st where "st = utf8init\<lparr>lowerBoundary := (if q = 0 then 0xA0 else 0x80),
        upperBoundary := (if q = 13 then 0x9F else 0xBF), bytesNeeded := 2, codePoint := q\<rparr>"
  have s: "startByte (0xE0 + q) = ([], st)"
    using assms(1) by (simp add: startByte_def m16 st_def)
  have h0: "handleByte utf8init (0xE0 + q) = ([], st)"
    by (simp add: handleByte_def s) (simp add: utf8init_def)
  have h1: "handleByte st (0x80 + m) =
      ([], st\<lparr>lowerBoundary := 0x80, upperBoundary := 0xBF, codePoint := q * 0x40 + m,
               bytesSeen := 1\<rparr>)"
    using assms by (simp add: handleByte_def m64) (auto simp: st_def utf8init_def)
  have h2: "handleByte (st\<lparr>lowerBoundary := 0x80, upperBoundary := 0xBF, codePoint := q * 0x40 + m,
               bytesSeen := 1\<rparr>) (0x80 + r) = ([(q * 0x40 + m) * 0x40 + r], utf8init)"
    using assms by (simp add: handleByte_def m64) (simp add: st_def utf8init_def)
  show ?thesis
    by (simp only: utf8DecodeFrom.simps h0 h1 h2 fst_conv snd_conv append_Nil append_Cons)
qed

lemma decode_digits4:
  assumes "q \<le> 4" "n < 64" "m < 64" "r < 64" "q = 0 \<longrightarrow> 16 \<le> n" "q = 4 \<longrightarrow> n < 16"
  shows "utf8DecodeFrom utf8init ((0xF0 + q) # (0x80 + n) # (0x80 + m) # (0x80 + r) # rest) =
     (((q * 0x40 + n) * 0x40 + m) * 0x40 + r) # utf8DecodeFrom utf8init rest"
proof -
  define st where "st = utf8init\<lparr>lowerBoundary := (if q = 0 then 0x90 else 0x80),
        upperBoundary := (if q = 4 then 0x8F else 0xBF), bytesNeeded := 3, codePoint := q\<rparr>"
  define st1 where "st1 = st\<lparr>lowerBoundary := 0x80, upperBoundary := 0xBF,
        codePoint := q * 0x40 + n, bytesSeen := 1\<rparr>"
  define st2 where "st2 = st1\<lparr>lowerBoundary := 0x80, upperBoundary := 0xBF,
        codePoint := (q * 0x40 + n) * 0x40 + m, bytesSeen := 2\<rparr>"
  have s: "startByte (0xF0 + q) = ([], st)"
    using assms(1) by (simp add: startByte_def m8 st_def)
  have h0: "handleByte utf8init (0xF0 + q) = ([], st)"
    by (simp add: handleByte_def s) (simp add: utf8init_def)
  have h1: "handleByte st (0x80 + n) = ([], st1)"
    using assms by (simp add: handleByte_def m64 st1_def) (auto simp: st_def utf8init_def)
  have h2: "handleByte st1 (0x80 + m) = ([], st2)"
    using assms by (simp add: handleByte_def m64 st2_def) (simp add: st1_def st_def utf8init_def)
  have h3: "handleByte st2 (0x80 + r) = ([((q * 0x40 + n) * 0x40 + m) * 0x40 + r], utf8init)"
    using assms by (simp add: handleByte_def m64) (simp add: st2_def st1_def st_def utf8init_def)
  show ?thesis
    by (simp only: utf8DecodeFrom.simps h0 h1 h2 h3 fst_conv snd_conv append_Nil append_Cons)
qed

lemma digits:
  fixes a :: nat
  obtains q m where "q = a div 0x40" "m = a mod 0x40" "a = q * 0x40 + m" "m < 0x40"
proof -
  have "a = a div 0x40 * 0x40 + a mod 0x40"
    by (rule div_mult_mod_eq [symmetric])
  moreover have "a mod 0x40 < 0x40"
    by simp
  ultimately show thesis
    using that by blast
qed

lemma utf8_decode_one:
  assumes "isScalarValue cp"
  shows "utf8DecodeFrom utf8init (utf8Bytes cp @ rest) = cp # utf8DecodeFrom utf8init rest"
proof -
  obtain a r where a: "a = cp div 0x40" "r = cp mod 0x40" "cp = a * 0x40 + r" "r < 0x40"
    by (rule digits)
  obtain b m where b: "b = a div 0x40" "m = a mod 0x40" "a = b * 0x40 + m" "m < 0x40"
    by (rule digits)
  obtain c n where c: "c = b div 0x40" "n = b mod 0x40" "b = c * 0x40 + n" "n < 0x40"
    by (rule digits)
  have d3: "cp div 0x1000 = b"
    unfolding b(1) a(1) by (simp add: div_mult2_eq [symmetric])
  have d4: "cp div 0x40000 = c"
    unfolding c(1) b(1) a(1) by (simp add: div_mult2_eq [symmetric])
  consider "cp < 0x80" | "0x80 \<le> cp" "cp < 0x800" | "0x800 \<le> cp" "cp < 0x10000"
    | "0x10000 \<le> cp"
    by linarith
  then show ?thesis
  proof cases
    case 1
    then have "utf8Bytes cp = [cp]"
      by (simp add: utf8Bytes_def)
    then show ?thesis
      using 1 by (simp only: append_Cons append_Nil decode_digits1)
  next
    case 2
    have u: "utf8Bytes cp = [0xC0 + a, 0x80 + r]"
      using 2 by (simp add: utf8Bytes_def a(1) a(2))
    have "2 \<le> a" "a < 32"
      using 2 a(3) a(4) by linarith+
    then show ?thesis
      unfolding u using decode_digits2 [of a r rest] a(3) a(4) by simp
  next
    case 3
    have u: "utf8Bytes cp = [0xE0 + b, 0x80 + m, 0x80 + r]"
      using 3 by (simp add: utf8Bytes_def d3 a(1) [symmetric] a(2) [symmetric] b(2) [symmetric])
    have s: "cp < 0xD800 \<or> 0xE000 \<le> cp"
      using assms by (auto simp: isScalarValue_def)
    have "b < 16" "b = 0 \<longrightarrow> 32 \<le> m" "b = 13 \<longrightarrow> m < 32"
      using 3 s a(3) a(4) b(3) b(4) by linarith+
    then show ?thesis
      unfolding u using decode_digits3 [of b m r rest] a(3) a(4) b(3) b(4) by simp
  next
    case 4
    have u: "utf8Bytes cp = [0xF0 + c, 0x80 + n, 0x80 + m, 0x80 + r]"
      using 4
      by (simp add: utf8Bytes_def d3 d4 a(1) [symmetric] a(2) [symmetric] b(2) [symmetric]
          c(2) [symmetric])
    have s: "cp < 0x110000"
      using assms by (auto simp: isScalarValue_def)
    have "c \<le> 4" "c = 0 \<longrightarrow> 16 \<le> n" "c = 4 \<longrightarrow> n < 16"
      using 4 s a(3) a(4) b(3) b(4) c(3) c(4) by linarith+
    then show ?thesis
      unfolding u using decode_digits4 [of c n m r rest] a(3) a(4) b(3) b(4) c(3) c(4) by simp
  qed
qed

lemma utf8Bytes_bound:
  assumes "isScalarValue cp"
  shows "\<forall>x\<in>set (utf8Bytes cp). x < 256"
proof -
  obtain a r where a: "a = cp div 0x40" "r = cp mod 0x40" "cp = a * 0x40 + r" "r < 0x40"
    by (rule digits)
  obtain b m where b: "b = a div 0x40" "m = a mod 0x40" "a = b * 0x40 + m" "m < 0x40"
    by (rule digits)
  obtain c n where c: "c = b div 0x40" "n = b mod 0x40" "b = c * 0x40 + n" "n < 0x40"
    by (rule digits)
  have d3: "cp div 0x1000 = b"
    unfolding b(1) a(1) by (simp add: div_mult2_eq [symmetric])
  have d4: "cp div 0x40000 = c"
    unfolding c(1) b(1) a(1) by (simp add: div_mult2_eq [symmetric])
  have s: "cp < 0x110000"
    using assms by (auto simp: isScalarValue_def)
  have u: "utf8Bytes cp =
     (if cp < 0x80 then [cp]
      else if cp < 0x800 then [0xC0 + a, 0x80 + r]
      else if cp < 0x10000 then [0xE0 + b, 0x80 + m, 0x80 + r]
      else [0xF0 + c, 0x80 + n, 0x80 + m, 0x80 + r])"
    by (simp add: utf8Bytes_def d3 d4 a(1) [symmetric] a(2) [symmetric] b(2) [symmetric]
          c(2) [symmetric])
  have "cp < 0x800 \<longrightarrow> a < 32" "cp < 0x10000 \<longrightarrow> b < 16" "c \<le> 4"
    using s a(3) a(4) b(3) b(4) c(3) c(4) by linarith+
  then show ?thesis
    unfolding u using a(4) b(4) c(4) by auto
qed

lemma utf8_decode_encode:
  "\<forall>cp\<in>set cps. isScalarValue cp \<Longrightarrow>
     utf8DecodeFrom utf8init (concat (map utf8Bytes cps)) = cps"
proof (induction cps)
  case Nil
  show ?case by (simp add: utf8init_def)
next
  case (Cons cp cps)
  then show ?case by (simp add: utf8_decode_one)
qed

lemma lead_unat: "isLeadSurrogate c = (0xD800 \<le> unat c \<and> unat c \<le> 0xDBFF)"
  by (simp add: isLeadSurrogate_def word_le_nat_alt)

lemma trail_unat: "isTrailSurrogate c = (0xDC00 \<le> unat c \<and> unat c \<le> 0xDFFF)"
  by (simp add: isTrailSurrogate_def word_le_nat_alt)

lemma unat16_bound: "unat (c :: 16 word) < 0x10000"
  using unsigned_less [of c] by simp

lemma codeUnits_single: "codeUnits (unat c) = [c]"
  using unat16_bound [of c] by (simp add: codeUnits_def)

lemma pair_value:
  assumes "isLeadSurrogate c" "isTrailSurrogate d"
  shows "codeUnits (0x10000 + (unat c - 0xD800) * 0x400 + (unat d - 0xDC00)) = [c, d]"
proof -
  define h where "h = unat c - 0xD800"
  define l where "l = unat d - 0xDC00"
  have hc: "unat c = 0xD800 + h" and ld: "unat d = 0xDC00 + l" and lb: "l < 0x400"
    using assms by (auto simp: lead_unat trail_unat h_def l_def)
  have dv: "(h * 0x400 + l) div 0x400 = h" and md: "(h * 0x400 + l) mod 0x400 = l"
    using lb by simp_all
  have "codeUnits (0x10000 + h * 0x400 + l) = [of_nat (0xD800 + h), of_nat (0xDC00 + l)]"
    unfolding codeUnits_def using dv md by (simp add: add.assoc del: of_nat_add)
  also have "\<dots> = [c, d]"
    unfolding hc [symmetric] ld [symmetric] by simp
  finally show ?thesis
    unfolding h_def l_def .
qed

lemma utf16_roundtrip: "wellFormed s \<Longrightarrow> concat (map codeUnits (scalarValues s)) = s"
proof (induction s rule: scalarValues.induct)
  case 1
  show ?case by simp
next
  case (2 c)
  then show ?case by (simp add: codeUnits_single)
next
  case (3 c d cs)
  show ?case
  proof (cases "isLeadSurrogate c")
    case True
    then have t: "isTrailSurrogate d" and w: "wellFormed cs"
      using "3.prems" by simp_all
    show ?thesis
      using True t "3.IH"(1) [OF _ w] by (simp add: pair_value)
  next
    case False
    then have t: "\<not> isTrailSurrogate c" and w: "wellFormed (d # cs)"
      using "3.prems" by simp_all
    show ?thesis
      using False t "3.IH"(3) [OF _ _ w] by (simp add: codeUnits_single)
  qed
qed

lemma scalarValues_scalar: "\<forall>cp\<in>set (scalarValues s). isScalarValue cp"
proof (induction s rule: scalarValues.induct)
  case 1
  show ?case by simp
next
  case (2 c)
  show ?case
    using unat16_bound [of c] by (auto simp: isScalarValue_def lead_unat trail_unat)
next
  case (3 c d cs)
  have p: "isLeadSurrogate c \<Longrightarrow> isTrailSurrogate d \<Longrightarrow>
      isScalarValue (0x10000 + (unat c - 0xD800) * 0x400 + (unat d - 0xDC00))"
    unfolding isScalarValue_def lead_unat trail_unat by linarith
  have q: "\<not> isLeadSurrogate c \<Longrightarrow> \<not> isTrailSurrogate c \<Longrightarrow> isScalarValue (unat c)"
    using unat16_bound [of c] unfolding isScalarValue_def lead_unat trail_unat by linarith
  have f: "isScalarValue 0xFFFD"
    by (simp add: isScalarValue_def)
  show ?case
    using 3 p q f by auto
qed

lemma stripBOM_scalarValues:
  "wellFormed s \<Longrightarrow>
     concat (map codeUnits (stripBOM (scalarValues s))) =
       (case s of [] \<Rightarrow> [] | c # cs \<Rightarrow> if c = 0xFEFF then cs else s)"
proof (cases s)
  case Nil
  then show ?thesis by simp
next
  case (Cons c cs)
  assume w: "wellFormed s"
  show ?thesis
  proof (cases "c = 0xFEFF")
    case True
    have ns: "\<not> isLeadSurrogate c" "\<not> isTrailSurrogate c"
      unfolding True by (simp_all add: isLeadSurrogate_def isTrailSurrogate_def)
    have sv: "scalarValues (c # cs) = 0xFEFF # scalarValues cs"
      using ns True by (cases cs) simp_all
    have wc: "wellFormed cs"
      using w ns unfolding Cons by (cases cs) simp_all
    show ?thesis
      unfolding Cons sv using True utf16_roundtrip [OF wc] by simp
  next
    case False
    have u: "unat c \<noteq> 0xFEFF"
    proof
      assume "unat c = 0xFEFF"
      then have "of_nat (unat c) = (of_nat 0xFEFF :: 16 word)"
        by simp
      then show False
        using False by simp
    qed
    have "scalarValues (c # cs) \<noteq> [] \<and> hd (scalarValues (c # cs)) \<noteq> 0xFEFF"
      using u by (cases cs) (auto simp: lead_unat trail_unat)
    then have "stripBOM (scalarValues (c # cs)) = scalarValues (c # cs)"
      by (cases "scalarValues (c # cs)") auto
    then show ?thesis
      unfolding Cons using False utf16_roundtrip [OF w [unfolded Cons]] by simp
  qed
qed

lemma textDecode_textEncode:
  "wellFormed s \<Longrightarrow>
     textDecode (textEncode s) = (case s of [] \<Rightarrow> [] | c # cs \<Rightarrow> if c = 0xFEFF then cs else s)"
proof -
  assume w: "wellFormed s"
  define bs where "bs = concat (map utf8Bytes (scalarValues s))"
  have "\<forall>x\<in>set bs. x < 256"
    unfolding bs_def using scalarValues_scalar [of s] utf8Bytes_bound by auto
  then have "map unat (map of_nat bs :: byte list) = bs"
    by (induction bs) (simp_all add: unat_of_nat8 del: of_nat_add)
  then have "utf8DecodeFrom utf8init (map unat (textEncode s)) = scalarValues s"
    unfolding textEncode_def bs_def [symmetric]
    using utf8_decode_encode [OF scalarValues_scalar, of s] by (simp add: bs_def)
  then show ?thesis
    unfolding textDecode_def using stripBOM_scalarValues [OF w] by simp
qed

lemma decode_encode:
  "wellFormed s \<Longrightarrow>
     decodeBase64 (encodeBase64 s) =
       (case s of [] \<Rightarrow> [] | c # cs \<Rightarrow> if c = 0xFEFF then cs else s)"
  by (simp add: decodeBase64_def encodeBase64_def atob_btoa textDecode_textEncode)

text \<open>
  C2, as stated, does not hold: the string of U+FEFF followed by \<open>A\<close> has no unpaired
  surrogate, its Base64 text is \<open>77u/QQ==\<close>, and decoding that gives \<open>A\<close> alone, because
  the decoder drops a U+FEFF at the start.
\<close>

theorem base64_round_trip_counterexample:
  "wellFormed [0xFEFF, 0x41]
   \<and> encodeBase64 [0xFEFF, 0x41] = js ''77u/QQ==''
   \<and> decodeBase64 (js ''77u/QQ=='') = [0x41]
   \<and> decodeBase64 (encodeBase64 [0xFEFF, 0x41]) \<noteq> [0xFEFF, 0x41]"
proof -
  have w: "wellFormed [0xFEFF, 0x41]"
    by (simp add: isLeadSurrogate_def isTrailSurrogate_def)
  have e: "encodeBase64 [0xFEFF, 0x41] = js ''77u/QQ==''"
    by (simp add: encodeBase64_def btoa_def textEncode_def utf8Bytes_def js_def b64char_def
        isLeadSurrogate_def isTrailSurrogate_def)
  have d: "decodeBase64 (encodeBase64 [0xFEFF, 0x41]) = [0x41]"
    using decode_encode [OF w] by simp
  show ?thesis
    using w e d by (simp add: e [symmetric])
qed

text \<open>
  C2, amended. For every string without an unpaired surrogate that does not start with
  U+FEFF, decoding the Base64 encoding gives the string back, code unit for code unit,
  multi-byte characters and surrogate pairs included. For a string that starts with
  U+FEFF, exactly that first code unit is missing from the result.
\<close>

theorem base64_round_trip:
  "(wellFormed s \<and> \<not> startsWith s [0xFEFF] \<longrightarrow> decodeBase64 (encodeBase64 s) = s)
   \<and> (wellFormed s \<longrightarrow> decodeBase64 (encodeBase64 (0xFEFF # s)) = s)"
proof -
  have a: "wellFormed s \<and> \<not> startsWith s [0xFEFF] \<longrightarrow> decodeBase64 (encodeBase64 s) = s"
    using decode_encode [of s] by (cases s) auto
  have n: "\<not> isLeadSurrogate 0xFEFF" "\<not> isTrailSurrogate 0xFEFF"
    by (simp_all add: isLeadSurrogate_def isTrailSurrogate_def)
  have "wellFormed s \<Longrightarrow> wellFormed (0xFEFF # s)"
    using n by (cases s) simp_all
  then have b: "wellFormed s \<longrightarrow> decodeBase64 (encodeBase64 (0xFEFF # s)) = s"
    using decode_encode [of "0xFEFF # s"] by simp
  show ?thesis
    using a b by blast
qed

theorem base64_round_trip_witness:
  "encodeBase64 [0x63, 0x61, 0x66, 0xE9] = js ''Y2Fmw6k=''
   \<and> decodeBase64 (encodeBase64 [0x63, 0x61, 0x66, 0xE9]) = [0x63, 0x61, 0x66, 0xE9]
   \<and> decodeBase64 (encodeBase64 [0xD83D, 0xDE00]) = [0xD83D, 0xDE00]"
proof -
  have w1: "wellFormed [0x63, 0x61, 0x66, 0xE9]" and w2: "wellFormed [0xD83D, 0xDE00]"
    by (simp_all add: isLeadSurrogate_def isTrailSurrogate_def)
  have e: "encodeBase64 [0x63, 0x61, 0x66, 0xE9] = js ''Y2Fmw6k=''"
    by (simp add: encodeBase64_def btoa_def textEncode_def utf8Bytes_def js_def b64char_def
        isLeadSurrogate_def isTrailSurrogate_def)
  show ?thesis
    using base64_round_trip [of "[0x63, 0x61, 0x66, 0xE9]"]
      base64_round_trip [of "[0xD83D, 0xDE00]"] w1 w2 e
    by simp
qed

subsection \<open>Chunking\<close>

lemma CHUNK_SIZE_pos: "0 < CHUNK_SIZE"
  by (simp add: CHUNK_SIZE_def)

lemma less_ceil_iff: "0 < c \<Longrightarrow> (j < (n + (c - 1)) div c) = (j * c < n)" for j n c :: nat
proof -
  assume c: "0 < c"
  have "(j < (n + (c - 1)) div c) = (Suc j \<le> (n + (c - 1)) div c)" by auto
  also have "\<dots> = (Suc j * c \<le> n + (c - 1))"
    using c by (simp only: less_eq_div_iff_mult_less_eq)
  also have "\<dots> = (j * c < n)" using c by (cases c) auto
  finally show ?thesis .
qed

lemma less_chunkCount_iff: "(j < spec_chunkCount n) = (j * 32767 < n \<and> j < 9)"
  using less_ceil_iff [of 32767 j n] by (simp add: spec_chunkCount_def)

lemma substring_chunk:
  "i \<le> length b \<Longrightarrow> substring b i (i + c) = take c (drop i b)"
  by (auto simp: substring_def Let_def min_def max_def)

lemma paramName_digit:
  "i < 9 \<Longrightarrow> js ''q'' @ numberToString (safe (int (i + 1))) = spec_paramName i"
proof -
  assume i: "i < 9"
  then have "\<bar>int (i + 1)\<bar> < 2 ^ 53"
    by simp
  then have r: "Rep_safeInteger (safe (int (i + 1))) = int (i + 1)"
    by (rule Rep_safe)
  have "decimalDigits (i + 1) = [of_nat (48 + (i + 1))]"
    using i by (intro decimalDigits_small) simp
  then have "numberToString (safe (int (i + 1))) = [of_nat (0x31 + i)]"
    unfolding numberToString_def r Let_def by (simp add: nat_add_distrib del: of_nat_add)
  then show ?thesis
    by (simp add: spec_paramName_def js_def)
qed

lemma chunkLoop_step:
  assumes "j * 32767 < length b" "j < 9"
  shows "chunkLoop b (j * 32767) acc = chunkLoop b (Suc j * 32767) (acc @ spec_item b j)"
proof -
  have d: "j * 32767 div CHUNK_SIZE = j"
    by (simp add: CHUNK_SIZE_def)
  have s: "substring b (j * 32767) (j * 32767 + CHUNK_SIZE) = spec_chunkAt b j"
    using assms(1) by (simp add: substring_chunk spec_chunkAt_def CHUNK_SIZE_def)
  have p: "paramItem (js ''q'' @ numberToString (safe (int (j + 1)))) (spec_chunkAt b j) =
      spec_item b j"
    unfolding paramName_digit [OF assms(2)] by (simp add: paramItem_def spec_item_def)
  have n: "j * 32767 + CHUNK_SIZE = Suc j * 32767"
    by (simp add: CHUNK_SIZE_def)
  have s': "substring b (j * 32767) (Suc j * 32767) = spec_chunkAt b j"
    using s unfolding n .
  show ?thesis
    apply (subst chunkLoop.simps)
    unfolding Let_def d n s' p
    using assms by simp
qed

lemma chunkLoop_stop:
  assumes "\<not> (j * 32767 < length b \<and> j < 9)"
  shows "chunkLoop b (j * 32767) acc = acc"
proof -
  have d: "j * 32767 div CHUNK_SIZE = j"
    by (simp add: CHUNK_SIZE_def)
  show ?thesis
    using assms by (subst chunkLoop.simps) (auto simp: d Let_def)
qed

lemma chunkLoop_from:
  "j \<le> spec_chunkCount (length b) \<Longrightarrow>
   chunkLoop b (j * 32767) acc =
     acc @ concat (map (spec_item b) [j..<spec_chunkCount (length b)])"
proof (induction "spec_chunkCount (length b) - j" arbitrary: j acc)
  case 0
  then have jk: "j = spec_chunkCount (length b)" by simp
  then have "\<not> (j * 32767 < length b \<and> j < 9)"
    using less_chunkCount_iff [of j "length b"] by simp
  then show ?case
    using jk by (simp add: chunkLoop_stop)
next
  case (Suc d)
  then have jk: "j < spec_chunkCount (length b)" by simp
  then have lt: "j * 32767 < length b" and j9: "j < 9"
    using less_chunkCount_iff [of j "length b"] by simp_all
  have "chunkLoop b (Suc j * 32767) (acc @ spec_item b j) =
      (acc @ spec_item b j) @
      concat (map (spec_item b) [Suc j..<spec_chunkCount (length b)])"
    using Suc jk by (intro Suc.hyps(1)) auto
  then show ?case
    using chunkLoop_step [OF lt j9] jk by (simp add: upt_conv_Cons)
qed

lemma concat_chunks: "concat (map (spec_chunkAt b) [0..<k]) = take (k * 32767) b"
proof (induction k)
  case 0
  show ?case by simp
next
  case (Suc k)
  have "Suc k * 32767 = k * 32767 + 32767"
    by simp
  then have "take (Suc k * 32767) b = take (k * 32767) b @ spec_chunkAt b k"
    by (simp only: take_add spec_chunkAt_def)
  then show ?case using Suc by simp
qed

lemma take_chunkCount:
  "take (spec_chunkCount (length b) * 32767) b = take (min (length b) (9 * 32767)) b"
proof (cases "9 * 32767 < length b")
  case True
  then have "\<not> 9 < spec_chunkCount (length b)" "\<not> spec_chunkCount (length b) < 9"
    using less_chunkCount_iff [of 9 "length b"]
      less_chunkCount_iff [of "spec_chunkCount (length b)" "length b"]
    by (auto simp: spec_chunkCount_def)
  then have "spec_chunkCount (length b) = 9" by simp
  then show ?thesis using True by (simp add: min_def)
next
  case False
  have "\<not> spec_chunkCount (length b) * 32767 < length b"
  proof
    assume a: "spec_chunkCount (length b) * 32767 < length b"
    have "\<not> spec_chunkCount (length b) < spec_chunkCount (length b)"
      by simp
    then have "\<not> spec_chunkCount (length b) < 9"
      using a less_chunkCount_iff [of "spec_chunkCount (length b)" "length b"] by simp
    moreover have "spec_chunkCount (length b) \<le> 9"
      by (simp add: spec_chunkCount_def)
    ultimately have "spec_chunkCount (length b) = 9" by simp
    then show False using a False by simp
  qed
  then show ?thesis using False by (simp add: min_def)
qed

lemma prepareSqlParameters_items:
  "prepareSqlParameters sql rowLimit =
     concat (map (spec_item (encodeBase64 (wrappedSql sql rowLimit)))
       [0..<spec_chunkCount (length (encodeBase64 (wrappedSql sql rowLimit)))])"
  using chunkLoop_from [of 0 "encodeBase64 (wrappedSql sql rowLimit)" "[]"]
  by (simp add: prepareSqlParameters_def)

text \<open>
  C1. For every statement and every row limit that is a safe integer, let \<open>b\<close> be the text
  that \<open>atob\<close> decodes to the UTF-8 bytes of the wrapped statement, and \<open>N\<close> its length.
  \<open>prepareSqlParameters\<close> returns, one after the other, the items of exactly
  \<open>min (ceil (N / 32767)) 9\<close> chunks: the item of index \<open>i\<close> is the text of the source with
  the name \<open>q\<close> followed by the digit of \<open>i + 1\<close> in its \<open>v2:name\<close> element and the slice of
  at most 32767 characters of \<open>b\<close> at offset \<open>i * 32767\<close> in its inner \<open>v2:item\<close> element.
  The names are \<open>q1\<close> to \<open>q9\<close> in order, and the chunks concatenated are the first
  \<open>min N (9 * 32767)\<close> characters of \<open>b\<close>. The function is total: it returns a string for
  every input and has no error result, also when \<open>b\<close> is longer than nine chunks.
\<close>

theorem chunking_into_q1_to_q9:
  "(let b = encodeBase64 (wrappedSql sql rowLimit);
        k = min ((length b + 32766) div 32767) 9
    in atob b = Some (textEncode (wrappedSql sql rowLimit))
     \<and> prepareSqlParameters sql rowLimit =
         concat (map
           (\<lambda>i. 0x0A # js ''        <v2:item>'' @
                0x0A # js ''            <v2:name>'' @ [0x71, of_nat (0x31 + i)] @ js ''</v2:name>'' @
                0x0A # js ''            <v2:values>'' @
                0x0A # js ''                <v2:item>'' @ take 32767 (drop (i * 32767) b) @
                       js ''</v2:item>'' @
                0x0A # js ''            </v2:values>'' @
                0x0A # js ''        </v2:item>'')
           [0..<k])
     \<and> map (\<lambda>i. [0x71, of_nat (0x31 + i)]) [0..<k] =
         take k [js ''q1'', js ''q2'', js ''q3'', js ''q4'', js ''q5'',
                 js ''q6'', js ''q7'', js ''q8'', js ''q9'']
     \<and> (\<forall>i<k. length (take 32767 (drop (i * 32767) b)) \<le> 32767)
     \<and> concat (map (\<lambda>i. take 32767 (drop (i * 32767) b)) [0..<k]) =
         take (min (length b) (9 * 32767)) b)"
proof -
  define b where "b = encodeBase64 (wrappedSql sql rowLimit)"
  define k where "k = min ((length b + 32766) div 32767) 9"
  have kc: "k = spec_chunkCount (length b)"
    by (simp add: k_def spec_chunkCount_def)
  have a: "atob b = Some (textEncode (wrappedSql sql rowLimit))"
    by (simp add: b_def encodeBase64_def atob_btoa)
  have i: "spec_item b =
      (\<lambda>i. 0x0A # js ''        <v2:item>'' @
                0x0A # js ''            <v2:name>'' @ [0x71, of_nat (0x31 + i)] @ js ''</v2:name>'' @
                0x0A # js ''            <v2:values>'' @
                0x0A # js ''                <v2:item>'' @ take 32767 (drop (i * 32767) b) @
                       js ''</v2:item>'' @
                0x0A # js ''            </v2:values>'' @
                0x0A # js ''        </v2:item>'')"
    by (rule ext) (simp add: spec_item_def spec_paramName_def spec_chunkAt_def)
  have p: "prepareSqlParameters sql rowLimit = concat (map (spec_item b) [0..<k])"
    unfolding kc b_def by (rule prepareSqlParameters_items)
  have k9: "k \<le> 9"
    by (simp add: k_def)
  have "map (\<lambda>i. [0x71, of_nat (0x31 + i)]) [0..<k] =
      take k (map (\<lambda>i. [0x71, of_nat (0x31 + i) :: code_unit]) [0..<9])"
    using k9 by (simp add: take_map min_def)
  also have "map (\<lambda>i. [0x71, of_nat (0x31 + i) :: code_unit]) [0..<9] =
      [js ''q1'', js ''q2'', js ''q3'', js ''q4'', js ''q5'',
       js ''q6'', js ''q7'', js ''q8'', js ''q9'']"
    by (simp add: upt_conv_Cons js_def)
  finally have n: "map (\<lambda>i. [0x71, of_nat (0x31 + i)]) [0..<k] =
      take k [js ''q1'', js ''q2'', js ''q3'', js ''q4'', js ''q5'',
              js ''q6'', js ''q7'', js ''q8'', js ''q9'']" .
  have s: "\<forall>i<k. length (take 32767 (drop (i * 32767) b)) \<le> 32767"
    by simp
  have c: "spec_chunkAt b = (\<lambda>i. take 32767 (drop (i * 32767) b))"
    by (rule ext) (simp add: spec_chunkAt_def)
  have "concat (map (spec_chunkAt b) [0..<k]) = take (min (length b) (9 * 32767)) b"
    by (simp only: concat_chunks kc take_chunkCount)
  then have t: "concat (map (\<lambda>i. take 32767 (drop (i * 32767) b)) [0..<k]) =
      take (min (length b) (9 * 32767)) b"
    unfolding c .
  show ?thesis
    unfolding Let_def b_def [symmetric] k_def [symmetric]
    using a p [unfolded i] n s t by blast
qed

lemma b64_example:
  "encodeBase64 (js ''SELECT * FROM (SELECT 1) WHERE rownum <= 5'') =
     js ''U0VMRUNUICogRlJPTSAoU0VMRUNUIDEpIFdIRVJFIHJvd251bSA8PSA1''"
  by (simp add: encodeBase64_def btoa_def textEncode_def utf8Bytes_def js_def b64char_def
      isLeadSurrogate_def isTrailSurrogate_def)

theorem chunking_into_q1_to_q9_witness:
  "prepareSqlParameters (js ''SELECT 1;'') (safe 5) =
     0x0A # js ''        <v2:item>'' @
     0x0A # js ''            <v2:name>q1</v2:name>'' @
     0x0A # js ''            <v2:values>'' @
     0x0A # js ''                <v2:item>U0VMRUNUICogRlJPTSAoU0VMRUNUIDEpIFdIRVJFIHJvd251bSA8PSA1</v2:item>'' @
     0x0A # js ''            </v2:values>'' @
     0x0A # js ''        </v2:item>''"
proof -
  define b where "b = js ''U0VMRUNUICogRlJPTSAoU0VMRUNUIDEpIFdIRVJFIHJvd251bSA8PSA1''"
  have w: "wrappedSql (js ''SELECT 1;'') (safe 5) =
      js ''SELECT * FROM (SELECT 1) WHERE rownum <= 5''"
    by (simp add: wrappedSql_def cleanSql_def trim_def endsWith_def slice_0_m1_def js_def
        isWhiteSpace_def numberToString_def decimalDigits.simps)
  have e: "encodeBase64 (wrappedSql (js ''SELECT 1;'') (safe 5)) = b"
    unfolding w b_def by (rule b64_example)
  have l: "length b = 56"
    by (simp add: b_def js_def)
  have k: "min ((length b + 32766) div 32767) 9 = 1"
    unfolding l by simp
  have "prepareSqlParameters (js ''SELECT 1;'') (safe 5) =
     0x0A # js ''        <v2:item>'' @
     0x0A # js ''            <v2:name>'' @ [0x71, 0x31] @ js ''</v2:name>'' @
     0x0A # js ''            <v2:values>'' @
     0x0A # js ''                <v2:item>'' @ take 32767 b @ js ''</v2:item>'' @
     0x0A # js ''            </v2:values>'' @
     0x0A # js ''        </v2:item>''"
    using chunking_into_q1_to_q9 [of "js ''SELECT 1;''" "safe 5"]
    unfolding Let_def e k by simp
  moreover have "take 32767 b = b"
    by (simp add: l)
  ultimately show ?thesis
    by (simp add: b_def js_def)
qed


subsection \<open>Template filling and URLs\<close>

lemma startsWith_take: "startsWith s t = (take (length t) s = t)"
  by (induction s t rule: startsWith.induct) auto

lemma find_map_Suc:
  "List.find P (map Suc xs) = map_option Suc (List.find (\<lambda>i. P (Suc i)) xs)"
  by (induction xs) auto

lemma indexOf_firstOccurrence: "indexOf s t = spec_firstOccurrence s t"
proof (induction s)
  case Nil
  show ?case by (auto simp: spec_firstOccurrence_def)
next
  case (Cons c cs)
  have u: "[0..<Suc (length (c # cs))] = 0 # map Suc [0..<Suc (length cs)]"
    by (simp only: map_Suc_upt length_Cons) (rule upt_conv_Cons, simp)
  show ?case
    unfolding spec_firstOccurrence_def u
    using Cons by (simp add: find_map_Suc startsWith_take spec_firstOccurrence_def del: upt_Suc)
qed


lemma firstOccurrence_Some:
  "spec_firstOccurrence s tok = Some i \<Longrightarrow>
     i \<le> length s \<and> take (length tok) (drop i s) = tok \<and>
     (\<forall>j<i. take (length tok) (drop j s) \<noteq> tok)"
proof -
  assume "spec_firstOccurrence s tok = Some i"
  then obtain k where k: "k < length [0..<Suc (length s)]"
      "take (length tok) (drop ([0..<Suc (length s)] ! k) s) = tok"
      "i = [0..<Suc (length s)] ! k"
      "\<forall>j<k. take (length tok) (drop ([0..<Suc (length s)] ! j) s) \<noteq> tok"
    unfolding spec_firstOccurrence_def find_Some_iff by blast
  have kl: "k < Suc (length s)"
    using k(1) by (simp del: upt_Suc)
  have n: "\<And>j. j \<le> k \<Longrightarrow> [0..<Suc (length s)] ! j = j"
    using kl by (simp del: upt_Suc)
  have ik: "i = k"
    using k(3) n by simp
  have "\<forall>j<i. take (length tok) (drop j s) \<noteq> tok"
  proof (intro allI impI)
    fix j assume "j < i"
    then have "j < k" "[0..<Suc (length s)] ! j = j"
      using ik n by auto
    then show "take (length tok) (drop j s) \<noteq> tok"
      using k(4) by metis
  qed
  moreover have "take (length tok) (drop i s) = tok"
    using k(2) n ik by simp
  ultimately show ?thesis
    using kl ik by simp
qed

lemma occurrence_split:
  "take (length t) (drop i s) = t \<Longrightarrow> s = take i s @ t @ drop (i + length t) s"
  by (metis append_take_drop_id drop_drop add.commute)

lemma includesStr_iff: "includesStr s t = (\<exists>a b. s = a @ t @ b)"
proof
  assume "includesStr s t"
  then obtain i where "spec_firstOccurrence s t = Some i"
    by (auto simp: includesStr_def indexOf_firstOccurrence)
  then have "take (length t) (drop i s) = t"
    using firstOccurrence_Some by blast
  then show "\<exists>a b. s = a @ t @ b"
    using occurrence_split by blast
next
  assume "\<exists>a b. s = a @ t @ b"
  then obtain a b where s: "s = a @ t @ b" by blast
  have "take (length t) (drop (length a) s) = t" "length a \<in> set [0..<Suc (length s)]"
    by (auto simp: s)
  then have "spec_firstOccurrence s t \<noteq> None"
    unfolding spec_firstOccurrence_def find_None_iff by blast
  then show "includesStr s t"
    by (simp add: includesStr_def indexOf_firstOccurrence)
qed













text \<open>
  C8. The base URL is trimmed. When it does not contain \<open>/xmlpserver\<close>, one trailing slash
  is removed and the report-service path is appended; otherwise it is used as it is. When
  a proxy is configured and not blank, the fetch URL is the proxy prefix followed by the
  target URL, code unit for code unit: the prefix is \<open>https://corsproxy.io/?\<close> for the
  proxy \<open>https://corsproxy.io\<close>, the trimmed proxy itself when it ends in \<open>?\<close>, \<open>=\<close> or
  \<open>/\<close>, and the trimmed proxy followed by \<open>/\<close> otherwise. With no proxy, or a blank one,
  the fetch URL is the target URL.
\<close>

theorem target_and_fetch_url:
  "(\<not> (\<exists>a b. trim (url config) = a @ js ''/xmlpserver'' @ b) \<longrightarrow>
      targetUrl config =
        (if trim (url config) \<noteq> [] \<and> last (trim (url config)) = 0x2F
         then butlast (trim (url config)) else trim (url config))
        @ js ''/xmlpserver/services/v2/ReportService'')
   \<and> ((\<exists>a b. trim (url config) = a @ js ''/xmlpserver'' @ b) \<longrightarrow>
        targetUrl config = trim (url config))
   \<and> (corsProxy config = Some p \<and> trim p \<noteq> [] \<longrightarrow>
        fetchUrl config =
          (if trim p = js ''https://corsproxy.io'' then js ''https://corsproxy.io/?''
           else if last (trim p) = 0x3F \<or> last (trim p) = 0x3D \<or> last (trim p) = 0x2F
             then trim p
           else trim p @ js ''/'')
          @ targetUrl config)
   \<and> (corsProxy config = None \<or> corsProxy config = Some p \<and> trim p = [] \<longrightarrow>
        fetchUrl config = targetUrl config)"
proof -
  have a: "\<not> (\<exists>a b. trim (url config) = a @ js ''/xmlpserver'' @ b) \<longrightarrow>
      targetUrl config =
        (if trim (url config) \<noteq> [] \<and> last (trim (url config)) = 0x2F
         then butlast (trim (url config)) else trim (url config))
        @ js ''/xmlpserver/services/v2/ReportService''"
    unfolding includesStr_iff [symmetric]
    by (simp add: targetUrl_def Let_def REPORT_SERVICE_PATH_def slice_0_m1_butlast)
       (simp add: js_def endsWith_single)
  have b: "(\<exists>a b. trim (url config) = a @ js ''/xmlpserver'' @ b) \<longrightarrow>
        targetUrl config = trim (url config)"
    unfolding includesStr_iff [symmetric] by (simp add: targetUrl_def)
  have c: "corsProxy config = Some p \<and> trim p \<noteq> [] \<longrightarrow>
        fetchUrl config =
          (if trim p = js ''https://corsproxy.io'' then js ''https://corsproxy.io/?''
           else if last (trim p) = 0x3F \<or> last (trim p) = 0x3D \<or> last (trim p) = 0x2F
             then trim p
           else trim p @ js ''/'')
          @ targetUrl config"
  proof (intro impI, elim conjE)
    assume p: "corsProxy config = Some p" and t: "trim p \<noteq> []"
    then have pne: "p \<noteq> []"
      by (auto simp: trim_def)
    have e: "\<And>c. endsWith (js ''https://corsproxy.io/?'') [c] = (c = 0x3F)"
      by (auto simp: endsWith_single js_def)
    have "proxyPrefix p =
          (if trim p = js ''https://corsproxy.io'' then js ''https://corsproxy.io/?''
           else if last (trim p) = 0x3F \<or> last (trim p) = 0x3D \<or> last (trim p) = 0x2F
             then trim p
           else trim p @ js ''/'')"
      using t e by (simp add: proxyPrefix_def Let_def) (simp add: js_def endsWith_single)
    then show "fetchUrl config =
          (if trim p = js ''https://corsproxy.io'' then js ''https://corsproxy.io/?''
           else if last (trim p) = 0x3F \<or> last (trim p) = 0x3D \<or> last (trim p) = 0x2F
             then trim p
           else trim p @ js ''/'')
          @ targetUrl config"
      using p t pne by (simp add: fetchUrl_def)
  qed
  have d: "corsProxy config = None \<or> corsProxy config = Some p \<and> trim p = [] \<longrightarrow>
        fetchUrl config = targetUrl config"
    by (auto simp: fetchUrl_def)
  show ?thesis
    using a b c d by blast
qed

theorem target_and_fetch_url_witness:
  "fetchUrl
     \<lparr>id_c = js ''1'', name_c = js ''n'', url = js '' https://h.example.com/ '',
      username = js ''scott'', password = js ''tiger'', soapTemplate = [],
      corsProxy = Some (js ''https://corsproxy.io'')\<rparr>
   = js ''https://corsproxy.io/?https://h.example.com/xmlpserver/services/v2/ReportService''
   \<and> fetchUrl
     \<lparr>id_c = js ''1'', name_c = js ''n'', url = js ''https://h.example.com'',
      username = js ''scott'', password = js ''tiger'', soapTemplate = [],
      corsProxy = Some (js ''https://proxy.example.org'')\<rparr>
   = js ''https://proxy.example.org/https://h.example.com/xmlpserver/services/v2/ReportService''"
proof -
  define c1 where "c1 =
     \<lparr>id_c = js ''1'', name_c = js ''n'', url = js '' https://h.example.com/ '',
      username = js ''scott'', password = js ''tiger'', soapTemplate = [],
      corsProxy = Some (js ''https://corsproxy.io'')\<rparr>"
  define c2 where "c2 =
     \<lparr>id_c = js ''1'', name_c = js ''n'', url = js ''https://h.example.com'',
      username = js ''scott'', password = js ''tiger'', soapTemplate = [],
      corsProxy = Some (js ''https://proxy.example.org'')\<rparr>"
  have t1: "trim (url c1) = js ''https://h.example.com/''"
    by (simp add: c1_def trim_def js_def isWhiteSpace_def)
  have t2: "trim (url c2) = js ''https://h.example.com''"
    by (simp add: c2_def trim_def js_def isWhiteSpace_def)
  have n1: "\<not> (\<exists>a b. trim (url c1) = a @ js ''/xmlpserver'' @ b)"
    unfolding includesStr_iff [symmetric] t1 by (simp add: includesStr_def js_def)
  have n2: "\<not> (\<exists>a b. trim (url c2) = a @ js ''/xmlpserver'' @ b)"
    unfolding includesStr_iff [symmetric] t2 by (simp add: includesStr_def js_def)
  have p1: "trim (js ''https://corsproxy.io'') = js ''https://corsproxy.io''"
    by (simp add: trim_def js_def isWhiteSpace_def)
  have p2: "trim (js ''https://proxy.example.org'') = js ''https://proxy.example.org''"
    by (simp add: trim_def js_def isWhiteSpace_def)
  have "fetchUrl c1 =
      js ''https://corsproxy.io/?https://h.example.com/xmlpserver/services/v2/ReportService''"
    using target_and_fetch_url [of c1 "js ''https://corsproxy.io''"] n1
    unfolding p1 t1 by (simp add: c1_def) (simp add: js_def)
  moreover have "fetchUrl c2 =
      js ''https://proxy.example.org/https://h.example.com/xmlpserver/services/v2/ReportService''"
    using target_and_fetch_url [of c2 "js ''https://proxy.example.org''"] n2
    unfolding p2 t2 by (simp add: c2_def) (simp add: js_def)
  ultimately show ?thesis
    unfolding c1_def c2_def by blast
qed


subsection \<open>The row limit\<close>

lemma onChangeRowLimit_default:
  "parseInt v = NaN \<or> parseInt v = SafeInteger (safe 0) \<Longrightarrow>
     onChangeRowLimit v = SafeInteger (safe 100)"
  by (auto simp: onChangeRowLimit_def)

lemma onChangeRowLimit_other:
  "parseInt v = SafeInteger n \<Longrightarrow> Rep_safeInteger n \<noteq> 0 \<Longrightarrow>
     onChangeRowLimit v = SafeInteger n"
  by (simp add: onChangeRowLimit_def)

text \<open>
  C7. The encoder prints the limit it is given; the coercion is in the handler of the
  input field, which declares \<open>min="1"\<close>. A text that is not numeric gives 100, and so does
  \<open>0\<close>, but the text \<open>-5\<close> is passed on as the number \<open>-5\<close>, and the wrapped statement then
  carries a limit that is not positive.
\<close>

theorem negative_row_limit_passes_through:
  "onChangeRowLimit (js ''abc'') = SafeInteger (safe 100)
   \<and> onChangeRowLimit (js ''0'') = SafeInteger (safe 100)
   \<and> onChangeRowLimit (js ''-5'') = SafeInteger (safe (- 5))
   \<and> Rep_safeInteger (safe (- 5)) = - 5
   \<and> wrappedSql (js ''SELECT 1'') (safe (- 5)) =
       js ''SELECT * FROM (SELECT 1) WHERE rownum <= -5''"
proof -
  have a: "parseInt (js ''abc'') = NaN"
    by (simp add: parseInt_def js_def isWhiteSpace_def isRadixDigit_def digitValue_def
        mathInt_def Let_def)
  have z: "parseInt (js ''0'') = SafeInteger (safe 0)"
    by (simp add: parseInt_def js_def isWhiteSpace_def isRadixDigit_def digitValue_def
        mathInt_def Let_def)
  have p: "parseInt (js ''-5'') = SafeInteger (safe (- 5))"
    by (simp add: parseInt_def js_def isWhiteSpace_def isRadixDigit_def digitValue_def
        mathInt_def Let_def)
  have w: "wrappedSql (js ''SELECT 1'') (safe (- 5)) =
      js ''SELECT * FROM (SELECT 1) WHERE rownum <= -5''"
    by (simp add: wrappedSql_def cleanSql_def trim_def endsWith_def slice_0_m1_def js_def
        isWhiteSpace_def numberToString_def decimalDigits.simps)
  show ?thesis
    using w by (simp add: onChangeRowLimit_def a z p)
qed


subsection \<open>Flattening\<close>


lemma firstSeen_snoc: "firstSeen (xs @ [x]) = (if x \<in> set xs then firstSeen xs else firstSeen xs @ [x])"
  by (simp add: firstSeen_def)

lemma set_firstSeen: "set (firstSeen xs) = set xs"
  by (simp add: firstSeen_def)

lemma foldl_setAdd: "foldl setAdd (firstSeen xs) ns = firstSeen (xs @ ns)"
proof (induction ns arbitrary: xs)
  case Nil
  show ?case by simp
next
  case (Cons n ns)
  have "setAdd (firstSeen xs) n = firstSeen (xs @ [n])"
    by (simp add: setAdd_def firstSeen_snoc set_firstSeen)
  then show ?case
    using Cons [of "xs @ [n]"] by simp
qed




















text \<open>
  C10. For a row with two children named \<open>__proto__\<close> the name is listed as a column, but
  the row object gets no property: the value \<open>2\<close> of the last child is lost. For every
  other tag name the last value is kept, as the theorem above states.
\<close>

theorem proto_column_is_not_bound:
  "parseOracleXML
     (\<lambda>s. Document (Element (js ''ROWSET'')
        [Element (js ''ROW'') [Element (js ''__proto__'') [Text (js ''1'')],
                                Element (js ''__proto__'') [Text (js ''2'')]]]))
     (js ''<ROWSET><ROW><__proto__>1</__proto__><__proto__>2</__proto__></ROW></ROWSET>'')
   = Inr \<lparr>columns = [js ''__proto__''], rows = [[]],
          rawXml = Some (js ''<ROWSET><ROW><__proto__>1</__proto__><__proto__>2</__proto__></ROW></ROWSET>''),
          executionTimeMs = 0\<rparr>
   \<and> parseOracleXML
     (\<lambda>s. Document (Element (js ''ROWSET'')
        [Element (js ''ROW'') [Element (js ''A'') [Text (js ''1'')],
                                Element (js ''B'') [Text (js ''2'')],
                                Element (js ''A'') [Text (js ''3'')]]]))
     (js ''<ROWSET><ROW><A>1</A><B>2</B><A>3</A></ROW></ROWSET>'')
   = Inr \<lparr>columns = [js ''A'', js ''B''],
          rows = [[(js ''A'', js ''3''), (js ''B'', js ''2'')]],
          rawXml = Some (js ''<ROWSET><ROW><A>1</A><B>2</B><A>3</A></ROW></ROWSET>''),
          executionTimeMs = 0\<rparr>"
  by (simp add: parseOracleXML_def getElementsByTagName_def children_def setAdd_def
      assignProperty_def js_def)

subsection \<open>Faults and missing payloads\<close>

lemma faultMatch_firstOccurrence:
  "faultMatch text =
     (case spec_firstOccurrence text (js ''<faultstring>'') of
        None \<Rightarrow> None
      | Some i \<Rightarrow>
          (case spec_firstOccurrence (drop (i + 13) text) (js ''</faultstring>'') of
             None \<Rightarrow> None
           | Some j \<Rightarrow> Some (take j (drop (i + 13) text))))"
proof -
  have l: "length (js ''<faultstring>'') = 13"
    by (simp add: js_def)
  show ?thesis
    unfolding faultMatch_def l indexOf_firstOccurrence Let_def ..
qed

lemma faultMatch_split:
  assumes "spec_firstOccurrence (pre @ js ''<faultstring>'' @ m @ js ''</faultstring>'' @ post)
             (js ''<faultstring>'') = Some (length pre)"
    and "spec_firstOccurrence (m @ js ''</faultstring>'' @ post) (js ''</faultstring>'') =
           Some (length m)"
  shows "faultMatch (pre @ js ''<faultstring>'' @ m @ js ''</faultstring>'' @ post) = Some m"
proof -
  have l: "length (js ''<faultstring>'') = 13"
    by (simp add: js_def)
  have d: "drop (length pre + 13)
      (pre @ js ''<faultstring>'' @ m @ js ''</faultstring>'' @ post) =
      m @ js ''</faultstring>'' @ post"
    using l by simp
  show ?thesis
    unfolding faultMatch_firstOccurrence assms(1) option.case d assms(2) by simp
qed

lemma handleOutcome_not_ok:
  "\<not> ok response \<Longrightarrow> faultMatch (body response) = Some m \<Longrightarrow> m \<noteq> [] \<Longrightarrow>
     handleOutcome env (Responded response) = Inl (ServerReturned (status response) m)"
  by (simp add: handleOutcome_def)

lemma handleOutcome_not_ok_raw:
  "\<not> ok response \<Longrightarrow> faultMatch (body response) = None \<or> faultMatch (body response) = Some [] \<Longrightarrow>
     handleOutcome env (Responded response) =
       Inl (ServerReturned (status response) (body response))"
  by (auto simp: handleOutcome_def)

lemma handleOutcome_faultstring:
  "ok response \<Longrightarrow>
   getElementsByTagName (domParser env (body response)) (js ''faultstring'') = f # fs \<Longrightarrow>
     handleOutcome env (Responded response) = Inl (OracleSoapFault (textContent f))"
  by (simp add: handleOutcome_def)

lemma handleOutcome_soapenv_Fault:
  "ok response \<Longrightarrow>
   getElementsByTagName (domParser env (body response)) (js ''faultstring'') = [] \<Longrightarrow>
   getElementsByTagName (domParser env (body response)) (js ''soapenv:Fault'') = f # fs \<Longrightarrow>
     handleOutcome env (Responded response) = Inl (OracleSoapFault (textContent f))"
  by (simp add: handleOutcome_def)

lemma status_text: "numberToString (safe 500) = js ''500''"
proof -
  have r: "Rep_safeInteger (safe 500) = 500"
    by (simp add: Rep_safe)
  show ?thesis
    by (simp add: numberToString_def r decimalDigits.simps js_def)
qed

text \<open>
  C4, as stated, does not hold: for the status 500 and the body
  \<open><faultstring>ORA-00001</faultstring>\<close> the call fails with the error of the HTTP
  status, \<open>Server returned 500: ORA-00001\<close>, and not with the server fault.
\<close>

theorem fault_detection_counterexample:
  "executeSoapQuery
     \<lparr>fetch = \<lambda>u b. Responded \<lparr>status = 500, body = js ''<faultstring>ORA-00001</faultstring>''\<rparr>,
      domParser = \<lambda>s. Document (Element (js ''faultstring'') [Text (js ''ORA-00001'')]),
      elapsedMs = 0\<rparr>
     (js ''SELECT 1'')
     \<lparr>id_c = [], name_c = [], url = [], username = [], password = [], soapTemplate = [],
      corsProxy = None\<rparr>
     (safe 100)
   = Inl (ServerReturned 500 (js ''ORA-00001''))
   \<and> Inl (ServerReturned 500 (js ''ORA-00001'')) \<noteq>
       (Inl (OracleSoapFault (js ''ORA-00001'')) :: error + QueryResult)
   \<and> errorMessage (ServerReturned 500 (js ''ORA-00001'')) = js ''Server returned 500: ORA-00001''"
proof -
  have m: "faultMatch (js ''<faultstring>ORA-00001</faultstring>'') = Some (js ''ORA-00001'')"
    by (simp add: faultMatch_def js_def)
  have n: "js ''ORA-00001'' \<noteq> []"
    by (simp add: js_def)
  have e: "errorMessage (ServerReturned 500 (js ''ORA-00001'')) = js ''Server returned 500: ORA-00001''"
    by (simp add: errorMessage_def status_text) (simp add: js_def)
  show ?thesis
    using m n e by (simp add: executeSoapQuery_def handleOutcome_def ok_def)
qed

text \<open>
  C4, amended. A response with a status outside 200 to 299 always fails with the error of
  the HTTP status. When its body text is some text, then the first \<open><faultstring>\<close> of the
  body, then a text \<open>M\<close> that is not empty, then the first \<open></faultstring>\<close> after that
  opening tag, then the rest, the error carries the status and \<open>M\<close>; when the body has no
  \<open><faultstring>\<close>, or no \<open></faultstring>\<close> after the first one, or nothing between them,
  the error carries the status and the whole body. A response with a status from 200 to
  299 whose parsed body has a \<open>faultstring\<close> element, or else a \<open>soapenv:Fault\<close> element,
  fails with the server fault carrying the text content of the first such element.
\<close>

theorem fault_detection:
  "(\<not> ok response \<and>
    body response = pre @ js ''<faultstring>'' @ m @ js ''</faultstring>'' @ post \<and>
    spec_firstOccurrence (body response) (js ''<faultstring>'') = Some (length pre) \<and>
    spec_firstOccurrence (m @ js ''</faultstring>'' @ post) (js ''</faultstring>'') =
      Some (length m) \<and>
    m \<noteq> [] \<longrightarrow>
      handleOutcome env (Responded response) = Inl (ServerReturned (status response) m)
      \<and> errorMessage (ServerReturned (status response) m) =
          js ''Server returned '' @ numberToString (safe (uint (status response))) @ js '': '' @ m)
   \<and> (\<not> ok response \<and>
       (spec_firstOccurrence (body response) (js ''<faultstring>'') = None \<or>
        (\<exists>i. spec_firstOccurrence (body response) (js ''<faultstring>'') = Some i \<and>
          (spec_firstOccurrence (drop (i + 13) (body response)) (js ''</faultstring>'') = None \<or>
           spec_firstOccurrence (drop (i + 13) (body response)) (js ''</faultstring>'') = Some 0)))
       \<longrightarrow>
      handleOutcome env (Responded response) =
        Inl (ServerReturned (status response) (body response)))
   \<and> (\<not> ok response \<longrightarrow>
      (\<exists>detail. handleOutcome env (Responded response) =
         Inl (ServerReturned (status response) detail)))
   \<and> (ok response \<and>
        getElementsByTagName (domParser env (body response)) (js ''faultstring'') = f # fs \<longrightarrow>
      handleOutcome env (Responded response) = Inl (OracleSoapFault (textContent f))
      \<and> errorMessage (OracleSoapFault (textContent f)) = js ''Oracle SOAP Fault: '' @ textContent f)
   \<and> (ok response \<and>
        getElementsByTagName (domParser env (body response)) (js ''faultstring'') = [] \<and>
        getElementsByTagName (domParser env (body response)) (js ''soapenv:Fault'') = f # fs \<longrightarrow>
      handleOutcome env (Responded response) = Inl (OracleSoapFault (textContent f)))
   \<and> ok response = (200 \<le> unat (status response) \<and> unat (status response) \<le> 299)
   \<and> executeSoapQuery env query config rowLimit =
        handleOutcome env
          (fetch env (fetchUrl config) (soapBody config (prepareSqlParameters query rowLimit)))"
proof -
  have a: "\<not> ok response \<and>
    body response = pre @ js ''<faultstring>'' @ m @ js ''</faultstring>'' @ post \<and>
    spec_firstOccurrence (body response) (js ''<faultstring>'') = Some (length pre) \<and>
    spec_firstOccurrence (m @ js ''</faultstring>'' @ post) (js ''</faultstring>'') =
      Some (length m) \<and>
    m \<noteq> [] \<longrightarrow>
      handleOutcome env (Responded response) = Inl (ServerReturned (status response) m)
      \<and> errorMessage (ServerReturned (status response) m) =
          js ''Server returned '' @ numberToString (safe (uint (status response))) @ js '': '' @ m"
  proof (intro impI, elim conjE)
    assume n: "\<not> ok response"
      and b: "body response = pre @ js ''<faultstring>'' @ m @ js ''</faultstring>'' @ post"
      and o: "spec_firstOccurrence (body response) (js ''<faultstring>'') = Some (length pre)"
      and c: "spec_firstOccurrence (m @ js ''</faultstring>'' @ post) (js ''</faultstring>'') =
        Some (length m)"
      and m: "m \<noteq> []"
    have "faultMatch (body response) = Some m"
      unfolding b using o [unfolded b] c by (rule faultMatch_split)
    then have "handleOutcome env (Responded response) = Inl (ServerReturned (status response) m)"
      using n m by (intro handleOutcome_not_ok)
    then show "handleOutcome env (Responded response) = Inl (ServerReturned (status response) m)
      \<and> errorMessage (ServerReturned (status response) m) =
          js ''Server returned '' @ numberToString (safe (uint (status response))) @ js '': '' @ m"
      by (simp add: errorMessage_def)
  qed
  have b: "\<not> ok response \<and>
       (spec_firstOccurrence (body response) (js ''<faultstring>'') = None \<or>
        (\<exists>i. spec_firstOccurrence (body response) (js ''<faultstring>'') = Some i \<and>
          (spec_firstOccurrence (drop (i + 13) (body response)) (js ''</faultstring>'') = None \<or>
           spec_firstOccurrence (drop (i + 13) (body response)) (js ''</faultstring>'') = Some 0)))
       \<longrightarrow>
      handleOutcome env (Responded response) =
        Inl (ServerReturned (status response) (body response))"
    using handleOutcome_not_ok_raw [of response env]
    by (auto simp: faultMatch_firstOccurrence)
  have c: "\<not> ok response \<longrightarrow>
      (\<exists>detail. handleOutcome env (Responded response) =
         Inl (ServerReturned (status response) detail))"
    by (cases "faultMatch (body response)") (auto simp: handleOutcome_def Let_def)
  have d: "ok response \<and>
        getElementsByTagName (domParser env (body response)) (js ''faultstring'') = f # fs \<longrightarrow>
      handleOutcome env (Responded response) = Inl (OracleSoapFault (textContent f))
      \<and> errorMessage (OracleSoapFault (textContent f)) = js ''Oracle SOAP Fault: '' @ textContent f"
    using handleOutcome_faultstring [of response env f fs] by (simp add: errorMessage_def)
  have e: "ok response \<and>
        getElementsByTagName (domParser env (body response)) (js ''faultstring'') = [] \<and>
        getElementsByTagName (domParser env (body response)) (js ''soapenv:Fault'') = f # fs \<longrightarrow>
      handleOutcome env (Responded response) = Inl (OracleSoapFault (textContent f))"
    using handleOutcome_soapenv_Fault [of response env f fs] by simp
  have g: "ok response = (200 \<le> unat (status response) \<and> unat (status response) \<le> 299)"
    by (simp add: ok_def word_le_nat_alt)
  have h: "executeSoapQuery env query config rowLimit =
        handleOutcome env
          (fetch env (fetchUrl config) (soapBody config (prepareSqlParameters query rowLimit)))"
    by (simp add: executeSoapQuery_def)
  show ?thesis
    using a b c d e g h by blast
qed

theorem fault_detection_witness:
  "handleOutcome
     \<lparr>fetch = \<lambda>u b. Rejected [] [],
      domParser = \<lambda>s. Document (Element (js ''env:Envelope'')
         [Element (js ''env:Body'') [Element (js ''env:Fault'')
            [Element (js ''faultcode'') [Text (js ''env:Server'')],
             Element (js ''faultstring'') [Text (js ''ORA-00001'')]]]]),
      elapsedMs = 0\<rparr>
     (Responded \<lparr>status = 200, body = js ''<env:Envelope>...</env:Envelope>''\<rparr>)
   = Inl (OracleSoapFault (js ''ORA-00001''))
   \<and> handleOutcome
     \<lparr>fetch = \<lambda>u b. Rejected [] [],
      domParser = \<lambda>s. Document (Element (js ''x'') []),
      elapsedMs = 0\<rparr>
     (Responded \<lparr>status = 500, body = js ''<a><faultstring>ORA-00001</faultstring></a>''\<rparr>)
   = Inl (ServerReturned 500 (js ''ORA-00001''))
   \<and> handleOutcome
     \<lparr>fetch = \<lambda>u b. Rejected [] [],
      domParser = \<lambda>s. Document (Element (js ''x'') []),
      elapsedMs = 0\<rparr>
     (Responded \<lparr>status = 500,
                 body = js ''<faultstring></faultstring><faultstring>c</faultstring>''\<rparr>)
   = Inl (ServerReturned 500 (js ''<faultstring></faultstring><faultstring>c</faultstring>''))"
proof -
  define e1 where "e1 = \<lparr>fetch = \<lambda>u b. Rejected [] [],
      domParser = \<lambda>s. Document (Element (js ''env:Envelope'')
         [Element (js ''env:Body'') [Element (js ''env:Fault'')
            [Element (js ''faultcode'') [Text (js ''env:Server'')],
             Element (js ''faultstring'') [Text (js ''ORA-00001'')]]]]),
      elapsedMs = 0\<rparr>"
  define r1 :: Response where
    "r1 = \<lparr>status = 200, body = js ''<env:Envelope>...</env:Envelope>''\<rparr>"
  define e2 where "e2 = \<lparr>fetch = \<lambda>u b. Rejected [] [],
      domParser = \<lambda>s. Document (Element (js ''x'') []),
      elapsedMs = 0::int\<rparr>"
  define r2 :: Response where
    "r2 = \<lparr>status = 500, body = js ''<a><faultstring>ORA-00001</faultstring></a>''\<rparr>"
  define r3 :: Response where
    "r3 = \<lparr>status = 500,
           body = js ''<faultstring></faultstring><faultstring>c</faultstring>''\<rparr>"
  have o1: "ok r1" and o2: "\<not> ok r2" and o3: "\<not> ok r3"
    by (simp_all add: ok_def r1_def r2_def r3_def)
  have g: "getElementsByTagName (domParser e1 (body r1)) (js ''faultstring'') =
      Element (js ''faultstring'') [Text (js ''ORA-00001'')] # []"
    by (simp add: e1_def getElementsByTagName_def js_def)
  have b2: "body r2 = js ''<a>'' @ js ''<faultstring>'' @ js ''ORA-00001'' @ js ''</faultstring>''
      @ js ''</a>''"
    by (simp add: r2_def js_def)
  have f2: "spec_firstOccurrence (body r2) (js ''<faultstring>'') = Some (length (js ''<a>''))"
    unfolding indexOf_firstOccurrence [symmetric] by (simp add: r2_def js_def)
  have c2: "spec_firstOccurrence (js ''ORA-00001'' @ js ''</faultstring>'' @ js ''</a>'')
      (js ''</faultstring>'') = Some (length (js ''ORA-00001''))"
    unfolding indexOf_firstOccurrence [symmetric] by (simp add: js_def)
  have n: "js ''ORA-00001'' \<noteq> []"
    by (simp add: js_def)
  have f3: "spec_firstOccurrence (body r3) (js ''<faultstring>'') = Some 0"
    unfolding indexOf_firstOccurrence [symmetric] by (simp add: r3_def js_def)
  have c3: "spec_firstOccurrence (drop (0 + 13) (body r3)) (js ''</faultstring>'') = Some 0"
    unfolding indexOf_firstOccurrence [symmetric] by (simp add: r3_def js_def)
  have "handleOutcome e1 (Responded r1) = Inl (OracleSoapFault (js ''ORA-00001''))"
    using fault_detection [of r1 _ _ _ e1 "Element (js ''faultstring'') [Text (js ''ORA-00001'')]" "[]"]
      o1 g by simp
  moreover have "handleOutcome e2 (Responded r2) = Inl (ServerReturned 500 (js ''ORA-00001''))"
    using fault_detection [of r2 "js ''<a>''" "js ''ORA-00001''" "js ''</a>''" e2] o2 b2 f2 c2 n
    by (simp add: r2_def)
  moreover have "handleOutcome e3 (Responded r3) = Inl (ServerReturned 500 (body r3))" for e3
    using fault_detection [of r3 _ _ _ e3] o3 f3 c3 by (auto simp: r3_def)
  ultimately show ?thesis
    unfolding e1_def r1_def e2_def r2_def r3_def by simp
qed

lemma handleOutcome_no_payload:
  "ok response \<Longrightarrow>
   getElementsByTagName (domParser env (body response)) (js ''faultstring'') = [] \<Longrightarrow>
   getElementsByTagName (domParser env (body response)) (js ''soapenv:Fault'') = [] \<Longrightarrow>
   getElementsByTagName (domParser env (body response)) (js ''reportBytes'') = [] \<Longrightarrow>
   getElementsByTagName (domParser env (body response)) (js ''v2:reportBytes'') = [] \<Longrightarrow>
   getElementsByTagName (domParser env (body response)) (js ''ns2:reportBytes'') = [] \<Longrightarrow>
     handleOutcome env (Responded response) = Inl NoReportBytes"
  by (simp add: handleOutcome_def)

text \<open>
  C5. The body of a response is parsed and the result is never checked for a parser
  error. For a body that is not XML the parser gives its error document, which has no
  fault and no report element, and the call fails with the same error as for a
  well-formed response without payload.
\<close>

theorem malformed_response_is_no_report_bytes:
  "handleOutcome
     \<lparr>fetch = \<lambda>u b. Rejected [] [],
      domParser = \<lambda>s. Document (Element (js ''parsererror'') [Text (js ''XML Parsing Error'')]),
      elapsedMs = 0\<rparr>
     (Responded \<lparr>status = 200, body = js ''Service <b>unavailable''\<rparr>)
   = Inl NoReportBytes
   \<and> handleOutcome
     \<lparr>fetch = \<lambda>u b. Rejected [] [],
      domParser = \<lambda>s. Document (Element (js ''runReportResponse'') []),
      elapsedMs = 0\<rparr>
     (Responded \<lparr>status = 200, body = js ''<runReportResponse/>''\<rparr>)
   = Inl NoReportBytes"
  by (simp add: handleOutcome_def ok_def getElementsByTagName_def js_def)


end
